theory Spec2Isabelle
  imports Complex_Main "HOL-Library.Log_Nat"
begin

section \<open>The flight-offer pipeline of flight\_search\_app.py\<close>

text \<open>
  The development embeds the functions \<open>get_amadeus_access_token\<close>,
  \<open>parse_duration_to_hours\<close>, \<open>extract_iata\<close> and \<open>search_flights_amadeus\<close> of
  \<^verbatim>\<open>src/flight_search_app.py\<close>. Exceptions are values of the type \<open>error\<close>, a function
  that may raise returns \<open>error + 'a\<close>, and Python's \<open>None\<close> is \<open>None\<close> of an option type.

  A Python \<open>str\<close> is a \<open>string\<close> in which every \<open>char\<close> stands for one code point, so
  the strings covered are those with code points below 256. The predicates \<open>isdigit\<close>,
  \<open>isdecimal\<close> and \<open>isspace\<close> and the mapping \<open>upper_char\<close> are Python's on that
  range. The upper case of such a string can leave the range (the upper case of code
  point 255 is code point 376) and can be longer (the upper case of code point 223 is
  \<open>SS\<close>), so the result of \<open>str.upper\<close> is a list of code points.

  A Python \<open>int\<close> is an \<open>int\<close>; a Python \<open>float\<close> is the rational number an IEEE 754
  double denotes, or \<open>inf\<close>, with the rounding of each operation written out.
\<close>

subsection \<open>Exceptions\<close>

datatype error =
    AmadeusError string
  | ValueError
  | OverflowError
  | JSONDecodeError
  | AttributeError


subsection \<open>Python floats\<close>

text \<open>
  A finite Python float is the rational number it denotes; \<open>binary64\<close> rounds a rational
  to the nearest IEEE 754 double (ties to even, 53 significant bits, gradual underflow
  below \<open>2 powi -1022\<close>). Only non-negative floats arise in the pipeline, so the one
  infinity is the positive one.
\<close>

datatype pyfloat = Finite rat | Infinity

definition round_half_even :: "rat \<Rightarrow> int" where
  "round_half_even q =
     (let f = \<lfloor>q\<rfloor>; d = q - of_int f
      in if d < 1 / 2 then f
         else if 1 / 2 < d then f + 1
         else if even f then f else f + 1)"

definition floor_log2 :: "rat \<Rightarrow> int" where
  "floor_log2 q =
     (let (a, b) = quotient_of q;
          d = int (floorlog 2 (nat a)) - int (floorlog 2 (nat b))
      in if 2 powi d \<le> q then d else d - 1)"

definition binary64 :: "rat \<Rightarrow> rat" where
  "binary64 q =
     (if q = 0 then 0
      else let e = max (floor_log2 \<bar>q\<bar>) (- 1022);
               u = 2 powi (e - 52)
           in of_int (round_half_even (q / u)) * u)"

definition float_max_bound :: rat where
  "float_max_bound = 2 ^ 1024"

text \<open>The result of a float operation: a value that rounds beyond the largest double is \<open>inf\<close>.\<close>

definition to_pyfloat :: "rat \<Rightarrow> pyfloat" where
  "to_pyfloat q =
     (let r = binary64 q in if \<bar>r\<bar> < float_max_bound then Finite r else Infinity)"

text \<open>
  The conversion of an \<open>int\<close> operand in mixed arithmetic: correctly rounded, and
  \<open>OverflowError\<close> ("int too large to convert to float") where a float operation would
  give \<open>inf\<close>.
\<close>

definition int_to_float :: "int \<Rightarrow> error + pyfloat" where
  "int_to_float n =
     (let r = binary64 (of_int n)
      in if \<bar>r\<bar> < float_max_bound then Inr (Finite r) else Inl OverflowError)"

fun float_add :: "pyfloat \<Rightarrow> pyfloat \<Rightarrow> pyfloat" where
  "float_add (Finite x) (Finite y) = to_pyfloat (x + y)"
| "float_add x y = Infinity"

text \<open>Division of a float by a non-zero float constant, as in \<open>minutes / 60.0\<close>.\<close>

fun float_truediv :: "pyfloat \<Rightarrow> rat \<Rightarrow> pyfloat" where
  "float_truediv (Finite x) c = to_pyfloat (x / c)"
| "float_truediv Infinity c = Infinity"

text \<open>
  \<open>round(x, 2)\<close>: the exact value of the double is rounded to two decimals, ties to even,
  and the decimal is converted back to the nearest double; \<open>inf\<close> rounds to itself.
\<close>

fun round2 :: "pyfloat \<Rightarrow> pyfloat" where
  "round2 (Finite x) = Finite (binary64 (of_int (round_half_even (x * 100)) / 100))"
| "round2 Infinity = Infinity"

subsection \<open>Python string operations\<close>

definition isdigit :: "char \<Rightarrow> bool" where
  "isdigit c =
     (let n = (of_char c :: nat)
      in (48 \<le> n \<and> n \<le> 57) \<or> n = 178 \<or> n = 179 \<or> n = 185)"

text \<open>The characters \<open>int()\<close> accepts as digits; the superscripts are digits for
  \<open>str.isdigit\<close> but not for \<open>int()\<close>.\<close>

definition isdecimal :: "char \<Rightarrow> bool" where
  "isdecimal c = (let n = (of_char c :: nat) in 48 \<le> n \<and> n \<le> 57)"

definition isspace :: "char \<Rightarrow> bool" where
  "isspace c =
     (let n = (of_char c :: nat)
      in (9 \<le> n \<and> n \<le> 13) \<or> (28 \<le> n \<and> n \<le> 32) \<or> n = 133 \<or> n = 160)"

text \<open>
  \<open>str.upper\<close> on one character: the letters \<open>a\<close> to \<open>z\<close> and the letters 224 to 254
  (without the division sign 247) move down by 32, the micro sign 181 becomes the Greek
  capital mu 924, the sharp s 223 becomes \<open>SS\<close>, the y with diaeresis 255 becomes 376, and
  every other code point below 256 is unchanged.
\<close>

definition upper_char :: "char \<Rightarrow> nat list" where
  "upper_char c =
     (let n = (of_char c :: nat)
      in if 97 \<le> n \<and> n \<le> 122 then [n - 32]
         else if n = 181 then [924]
         else if n = 223 then [83, 83]
         else if 224 \<le> n \<and> n \<le> 254 \<and> n \<noteq> 247 then [n - 32]
         else if n = 255 then [376]
         else [n])"

definition upper :: "string \<Rightarrow> nat list" where
  "upper s = concat (map upper_char s)"

definition strip :: "string \<Rightarrow> string" where
  "strip s = rev (dropWhile isspace (rev (dropWhile isspace s)))"

text \<open>\<open>s.rfind(c)\<close>: the index of the last occurrence of \<open>c\<close>, or \<open>-1\<close>.\<close>

definition rfind :: "string \<Rightarrow> char \<Rightarrow> int" where
  "rfind s c = int (length (dropWhile (\<lambda>x. x \<noteq> c) (rev s))) - 1"

text \<open>\<open>s[i:j]\<close> for indices that are not negative (negative ones would count from the end).\<close>

definition slice :: "string \<Rightarrow> int \<Rightarrow> int \<Rightarrow> string" where
  "slice s i j = take (nat j - nat i) (drop (nat i) s)"

definition digit_value :: "char \<Rightarrow> int" where
  "digit_value c = int (of_char c) - 48"

definition int_max_str_digits :: nat where
  "int_max_str_digits = 4300"

text \<open>
  \<open>int(num)\<close> for a non-empty \<open>num\<close> of \<open>isdigit\<close> characters: \<open>ValueError\<close> for a
  character that is no decimal digit and, with the interpreter's default limit, for more
  than 4300 digits.
\<close>

definition digits_value :: "string \<Rightarrow> int" where
  "digits_value num = foldl (\<lambda>n c. 10 * n + digit_value c) 0 num"

definition py_int :: "string \<Rightarrow> error + int" where
  "py_int num =
     (if \<not> list_all isdecimal num then Inl ValueError
      else if int_max_str_digits < length num then Inl ValueError
      else Inr (digits_value num))"

subsection \<open>parse\_duration\_to\_hours\<close>

text \<open>The loop \<open>for ch in current\<close> over the state \<open>hours\<close>, \<open>minutes\<close>, \<open>num\<close>.\<close>

fun scan_duration :: "string \<Rightarrow> int \<Rightarrow> int \<Rightarrow> string \<Rightarrow> error + int \<times> int" where
  "scan_duration [] hours minutes num = Inr (hours, minutes)"
| "scan_duration (ch # cs) hours minutes num =
     (if isdigit ch then scan_duration cs hours minutes (num @ [ch])
      else if ch = CHR ''H'' \<and> num \<noteq> [] then
        (case py_int num of
           Inl e \<Rightarrow> Inl e
         | Inr v \<Rightarrow> scan_duration cs v minutes [])
      else if ch = CHR ''M'' \<and> num \<noteq> [] then
        (case py_int num of
           Inl e \<Rightarrow> Inl e
         | Inr v \<Rightarrow> scan_duration cs hours v [])
      else scan_duration cs hours minutes [])"

text \<open>\<open>round(hours + minutes / 60.0, 2)\<close>; the quotient is evaluated first.\<close>

definition hours_value :: "int \<Rightarrow> int \<Rightarrow> error + pyfloat" where
  "hours_value hours minutes =
     (case int_to_float minutes of
        Inl e \<Rightarrow> Inl e
      | Inr fm \<Rightarrow>
          (case int_to_float hours of
             Inl e \<Rightarrow> Inl e
           | Inr fh \<Rightarrow> Inr (round2 (float_add fh (float_truediv fm 60)))))"

definition parse_duration_to_hours :: "string \<Rightarrow> error + pyfloat option" where
  "parse_duration_to_hours duration =
     (if duration = [] \<or> take 2 duration \<noteq> ''PT'' then Inr None
      else
        (case scan_duration (drop 2 duration) 0 0 [] of
           Inl e \<Rightarrow> Inl e
         | Inr (hours, minutes) \<Rightarrow>
             (case hours_value hours minutes of
                Inl e \<Rightarrow> Inl e
              | Inr v \<Rightarrow> Inr (Some v))))"

subsection \<open>extract\_iata\<close>

definition extract_iata :: "string \<Rightarrow> nat list" where
  "extract_iata code_or_city =
     (let text = strip code_or_city;
          fallback = take 3 (upper (strip text))
      in if CHR ''('' \<in> set text \<and> CHR '')'' \<in> set text then
           (let start = rfind text (CHR ''('') + 1;
                stop = rfind text (CHR '')'');
                iata = strip (slice text start stop)
            in if length iata = 3 then upper iata else fallback)
         else fallback)"

subsection \<open>The provider's records and the canonical offer\<close>

text \<open>
  The JSON documents of the provider are records whose fields are optional: \<open>None\<close> is a
  key that is missing, which the code replaces by the default of its \<open>.get\<close>.
\<close>

record endpoint =
  iataCode :: "string option"
  at_time :: "string option"

record segment =
  carrierCode :: "string option"
  departure :: "endpoint option"
  arrival :: "endpoint option"

record itinerary =
  segments :: "segment list option"
  duration :: "string option"

record price_info =
  grandTotal :: "string option"
  price_currency :: "string option"

record raw_offer =
  offer_price :: "price_info option"
  itineraries :: "itinerary list option"
  validatingAirlineCodes :: "string list option"

record flight_offer =
  airline :: string
  origin :: string
  destination :: string
  departure_time :: string
  arrival_time :: string
  stops :: int
  price :: pyfloat
  currency :: string
  duration_hours :: "pyfloat option"

definition get_default :: "'a option \<Rightarrow> 'a \<Rightarrow> 'a" where
  "get_default field dflt = (case field of None \<Rightarrow> dflt | Some v \<Rightarrow> v)"

definition endpoint_iata :: "endpoint option \<Rightarrow> string" where
  "endpoint_iata ep = (case ep of None \<Rightarrow> [] | Some p \<Rightarrow> get_default (iataCode p) [])"

definition endpoint_at :: "endpoint option \<Rightarrow> string" where
  "endpoint_at ep = (case ep of None \<Rightarrow> [] | Some p \<Rightarrow> get_default (at_time p) [])"

text \<open>
  \<open>float(price_info.get("grandTotal", 0.0))\<close>. The conversion of a string by \<open>float()\<close> is
  the parameter \<open>str_to_float\<close>, with \<open>None\<close> where it raises \<open>ValueError\<close>.
\<close>

definition offer_price_value ::
  "(string \<Rightarrow> pyfloat option) \<Rightarrow> price_info option \<Rightarrow> error + pyfloat" where
  "offer_price_value str_to_float pinfo =
     (case (case pinfo of None \<Rightarrow> None | Some p \<Rightarrow> grandTotal p) of
        None \<Rightarrow> Inr (Finite 0)
      | Some s \<Rightarrow> (case str_to_float s of None \<Rightarrow> Inl ValueError | Some v \<Rightarrow> Inr v))"

definition offer_currency :: "price_info option \<Rightarrow> string" where
  "offer_currency pinfo =
     (case pinfo of None \<Rightarrow> ''AUD'' | Some p \<Rightarrow> get_default (price_currency p) ''AUD'')"

subsection \<open>The body of the normalisation loop\<close>

text \<open>
  One pass of \<open>for offer in offers\<close>: \<open>Inr None\<close> is \<open>continue\<close>, \<open>Inr (Some r)\<close> appends
  \<open>r\<close> to \<open>normalized\<close>, \<open>Inl e\<close> is an exception leaving the loop. The duration is parsed
  before the stop filter and the price is converted after it, as in the source.
\<close>

definition normalize_offer ::
  "(string \<Rightarrow> pyfloat option) \<Rightarrow> int \<Rightarrow> raw_offer \<Rightarrow> error + flight_offer option" where
  "normalize_offer str_to_float max_stops offer =
     (case get_default (itineraries offer) [] of
        [] \<Rightarrow> Inr None
      | itin # other_itineraries \<Rightarrow>
          (case get_default (segments itin) [] of
             [] \<Rightarrow> Inr None
           | first_seg # more_segs \<Rightarrow>
               (let segs = first_seg # more_segs;
                    last_seg = last segs;
                    airline_code =
                      (case get_default (validatingAirlineCodes offer) [] of
                         [] \<Rightarrow> get_default (carrierCode first_seg) ''N/A''
                       | a # as \<Rightarrow> a)
                in case parse_duration_to_hours (get_default (duration itin) []) of
                     Inl e \<Rightarrow> Inl e
                   | Inr dur \<Rightarrow>
                       (let n_stops = max (int (length segs) - 1) 0
                        in if max_stops = 0 \<and> 0 < n_stops then Inr None
                           else if max_stops = 1 \<and> 1 < n_stops then Inr None
                           else
                             (case offer_price_value str_to_float (offer_price offer) of
                                Inl e \<Rightarrow> Inl e
                              | Inr p \<Rightarrow>
                                  Inr (Some
                                    \<lparr>airline = airline_code,
                                     origin = endpoint_iata (departure first_seg),
                                     destination = endpoint_iata (arrival last_seg),
                                     departure_time = endpoint_at (departure first_seg),
                                     arrival_time = endpoint_at (arrival last_seg),
                                     stops = n_stops,
                                     price = p,
                                     currency = offer_currency (offer_price offer),
                                     duration_hours = dur\<rparr>))))))"

fun normalize_loop ::
  "(string \<Rightarrow> pyfloat option) \<Rightarrow> int \<Rightarrow> raw_offer list \<Rightarrow> flight_offer list
     \<Rightarrow> error + flight_offer list" where
  "normalize_loop str_to_float max_stops [] normalized = Inr normalized"
| "normalize_loop str_to_float max_stops (offer # offers) normalized =
     (case normalize_offer str_to_float max_stops offer of
        Inl e \<Rightarrow> Inl e
      | Inr None \<Rightarrow> normalize_loop str_to_float max_stops offers normalized
      | Inr (Some r) \<Rightarrow> normalize_loop str_to_float max_stops offers (normalized @ [r]))"

definition normalize ::
  "(string \<Rightarrow> pyfloat option) \<Rightarrow> int \<Rightarrow> raw_offer list \<Rightarrow> error + flight_offer list" where
  "normalize str_to_float max_stops offers = normalize_loop str_to_float max_stops offers []"

subsection \<open>The network\<close>

text \<open>
  A call of \<open>requests\<close> either raises a \<open>RequestException\<close> before any response arrives
  or returns a response with a status code and a body; \<open>raise_for_status\<close> raises for the
  codes 400 to 599; \<open>resp.json()\<close> raises a \<open>RequestException\<close> of its own on a body that
  is not JSON (requests 2.27 and later). A body that is JSON but no object (\<open>null\<close>, a
  list, a number, a string) is \<open>JsonOther\<close>: it has no \<open>get\<close>, so reading a key raises
  \<open>AttributeError\<close>, which no handler of the source catches. The bodies that are objects
  have the shape the code reads. Each function returns, beside its result, the requests
  it has sent.
\<close>

text \<open>A parameter value: a \<open>str\<close>, an \<open>int\<close>, or a \<open>str\<close> given by its code points (the
  location codes, which come from \<open>str.upper\<close>).\<close>

datatype param = PStr string | PInt int | PCode "nat list"

datatype request =
    POST_token "(string \<times> string) list"
  | GET_offers string "(string \<times> param) list"

datatype 'a body = NotJson | JsonOther | Json 'a

datatype 'a response = ConnectionFailed | HttpResponse nat "'a body"

record token_payload =
  access_token :: "string option"

record offers_payload =
  data :: "raw_offer list option"

record network =
  token_endpoint :: "(string \<times> string) list \<Rightarrow> token_payload response"
  offers_endpoint :: "string \<Rightarrow> (string \<times> param) list \<Rightarrow> offers_payload response"

record config =
  AMADEUS_CLIENT_ID :: "string option"
  AMADEUS_CLIENT_SECRET :: "string option"

definition raises_for_status :: "nat \<Rightarrow> bool" where
  "raises_for_status code = (400 \<le> code \<and> code < 600)"

text \<open>Python's \<open>not x\<close> for an optional string: \<open>None\<close> and the empty string are falsy.\<close>

definition falsy :: "string option \<Rightarrow> bool" where
  "falsy x = (case x of None \<Rightarrow> True | Some s \<Rightarrow> s = [])"

subsection \<open>get\_amadeus\_access\_token\<close>

text \<open>
  The messages of the exceptions are the fixed part of the source's text; the text of the
  underlying cause that the source appends is left out.
\<close>

definition credentials_message :: string where
  "credentials_message =
     ''AMADEUS_CLIENT_ID or AMADEUS_CLIENT_SECRET not set. '' @
     ''Set them in your Windows terminal before running Streamlit.''"

definition token_form :: "config \<Rightarrow> (string \<times> string) list" where
  "token_form cfg =
     [(''grant_type'', ''client_credentials''),
      (''client_id'', get_default (AMADEUS_CLIENT_ID cfg) []),
      (''client_secret'', get_default (AMADEUS_CLIENT_SECRET cfg) [])]"

definition get_amadeus_access_token :: "config \<Rightarrow> network \<Rightarrow> (error + string) \<times> request list" where
  "get_amadeus_access_token cfg net =
     (if falsy (AMADEUS_CLIENT_ID cfg) \<or> falsy (AMADEUS_CLIENT_SECRET cfg) then
        (Inl (AmadeusError credentials_message), [])
      else
        (let sent = [POST_token (token_form cfg)]
         in case token_endpoint net (token_form cfg) of
              ConnectionFailed \<Rightarrow> (Inl (AmadeusError ''Error getting Amadeus token: ''), sent)
            | HttpResponse code b \<Rightarrow>
                if raises_for_status code then
                  (Inl (AmadeusError ''Error getting Amadeus token: ''), sent)
                else
                  (case b of
                     NotJson \<Rightarrow> (Inl (AmadeusError ''Error getting Amadeus token: ''), sent)
                   | JsonOther \<Rightarrow> (Inl AttributeError, sent)
                   | Json payload \<Rightarrow>
                       if falsy (access_token payload) then
                         (Inl (AmadeusError ''No access_token in response: ''), sent)
                       else (Inr (get_default (access_token payload) []), sent))))"

subsection \<open>search\_flights\_amadeus\<close>

text \<open>The dictionary \<open>params\<close>, in insertion order.\<close>

definition search_params ::
  "string \<Rightarrow> string \<Rightarrow> string \<Rightarrow> string option \<Rightarrow> int \<Rightarrow> (string \<times> param) list" where
  "search_params origin_city destination_city departure_date return_date max_stops =
     [(''originLocationCode'', PCode (extract_iata origin_city)),
      (''destinationLocationCode'', PCode (extract_iata destination_city)),
      (''departureDate'', PStr departure_date),
      (''adults'', PInt 1),
      (''currencyCode'', PStr ''AUD''),
      (''max'', PInt 20)]
     @ (if \<not> falsy return_date \<and> return_date \<noteq> Some departure_date
        then [(''returnDate'', PStr (get_default return_date []))] else [])
     @ (if max_stops = 0 then [(''nonStop'', PStr ''true'')] else [])"

definition search_flights_amadeus ::
  "config \<Rightarrow> network \<Rightarrow> (string \<Rightarrow> pyfloat option) \<Rightarrow> string \<Rightarrow> string \<Rightarrow> string
     \<Rightarrow> string option \<Rightarrow> int \<Rightarrow> (error + flight_offer list) \<times> request list" where
  "search_flights_amadeus cfg net str_to_float origin_city destination_city departure_date
       return_date max_stops =
     (case get_amadeus_access_token cfg net of
        (Inl e, sent) \<Rightarrow> (Inl e, sent)
      | (Inr token, sent) \<Rightarrow>
          (let authorization = ''Bearer '' @ token;
               params = search_params origin_city destination_city departure_date
                          return_date max_stops;
               sent' = sent @ [GET_offers authorization params]
           in case offers_endpoint net authorization params of
                ConnectionFailed \<Rightarrow>
                  (Inl (AmadeusError ''Error calling Amadeus Flight Offers Search: ''), sent')
              | HttpResponse code b \<Rightarrow>
                  if raises_for_status code then
                    (Inl (AmadeusError ''Error calling Amadeus Flight Offers Search: ''), sent')
                  else
                    (case b of
                       NotJson \<Rightarrow> (Inl JSONDecodeError, sent')
                     | JsonOther \<Rightarrow> (Inl AttributeError, sent')
                     | Json payload \<Rightarrow>
                         (normalize str_to_float max_stops (get_default (data payload) []),
                          sent'))))"

subsection \<open>Auxiliary notions for the statements\<close>

text \<open>What one pass of the loop appends, and whether it ends without an exception.\<close>

definition retained :: "(string \<Rightarrow> pyfloat option) \<Rightarrow> int \<Rightarrow> raw_offer \<Rightarrow> flight_offer option" where
  "retained f ms offer = (case normalize_offer f ms offer of Inl e \<Rightarrow> None | Inr x \<Rightarrow> x)"

definition succeeds :: "(string \<Rightarrow> pyfloat option) \<Rightarrow> int \<Rightarrow> raw_offer \<Rightarrow> bool" where
  "succeeds f ms offer = (case normalize_offer f ms offer of Inl e \<Rightarrow> False | Inr x \<Rightarrow> True)"

subsection \<open>Sample data\<close>

definition example_segment :: "string \<Rightarrow> string \<Rightarrow> segment" where
  "example_segment src dst =
     \<lparr>carrierCode = Some ''QF'',
      departure = Some \<lparr>iataCode = Some src, at_time = Some ''2026-01-10T08:00:00''\<rparr>,
      arrival = Some \<lparr>iataCode = Some dst, at_time = Some ''2026-01-10T11:00:00''\<rparr>\<rparr>"

definition example_offer :: "segment list \<Rightarrow> string option \<Rightarrow> raw_offer" where
  "example_offer segs dur =
     \<lparr>offer_price = None,
      itineraries = Some [\<lparr>segments = Some segs, duration = dur\<rparr>],
      validatingAirlineCodes = None\<rparr>"

definition direct_offer :: raw_offer where
  "direct_offer = example_offer [example_segment ''SYD'' ''MEL''] None"

definition two_stop_offer :: raw_offer where
  "two_stop_offer =
     example_offer [example_segment ''SYD'' ''BNE'', example_segment ''BNE'' ''ADL'',
                    example_segment ''ADL'' ''MEL''] None"

definition one_stop_offer :: raw_offer where
  "one_stop_offer =
     example_offer [example_segment ''SYD'' ''CBR'', example_segment ''CBR'' ''MEL''] None"

definition direct_flight :: flight_offer where
  "direct_flight =
     \<lparr>airline = ''QF'', origin = ''SYD'', destination = ''MEL'',
      departure_time = ''2026-01-10T08:00:00'', arrival_time = ''2026-01-10T11:00:00'',
      stops = 0, price = Finite 0, currency = ''AUD'', duration_hours = None\<rparr>"

definition one_stop_flight :: flight_offer where
  "one_stop_flight = direct_flight\<lparr>stops := 1\<rparr>"

definition sample_config :: config where
  "sample_config = \<lparr>AMADEUS_CLIENT_ID = Some ''id'', AMADEUS_CLIENT_SECRET = Some ''secret''\<rparr>"

text \<open>A provider that grants a token and answers every search with the given status and body.\<close>

definition sample_network :: "nat \<Rightarrow> offers_payload body \<Rightarrow> network" where
  "sample_network code b =
     \<lparr>token_endpoint = (\<lambda>form. HttpResponse 200 (Json \<lparr>access_token = Some ''tok''\<rparr>)),
      offers_endpoint = (\<lambda>auth ps. HttpResponse code b)\<rparr>"

definition unreachable_network :: network where
  "unreachable_network =
     \<lparr>token_endpoint = (\<lambda>form. ConnectionFailed),
      offers_endpoint = (\<lambda>auth ps. ConnectionFailed)\<rparr>"

definition no_float :: "string \<Rightarrow> pyfloat option" where
  "no_float s = None"

definition no_segments_offer :: raw_offer where
  "no_segments_offer =
     \<lparr>offer_price = None,
      itineraries = Some [\<lparr>segments = Some [], duration = Some ''PT3H''\<rparr>],
      validatingAirlineCodes = None\<rparr>"

subsection \<open>Character classes for the statements\<close>


text \<open>The sharp s, the one character below 256 whose upper case has two characters.\<close>

definition sharp_s :: char where
  "sharp_s = CHR 0xDF"

text \<open>A string as the list of its code points.\<close>

definition code_points :: "string \<Rightarrow> nat list" where
  "code_points s = map of_char s"

section \<open>Properties\<close>

subsection \<open>The normalisation loop\<close>

lemma normalize_loop_append:
  "normalize_loop f ms (xs @ ys) acc =
     (case normalize_loop f ms xs acc of Inl e \<Rightarrow> Inl e | Inr acc' \<Rightarrow> normalize_loop f ms ys acc')"
  by (induction xs arbitrary: acc) (auto split: sum.splits option.splits)

lemma retained_Inr: "normalize_offer f ms a = Inr x \<Longrightarrow> retained f ms a = x"
  by (simp add: retained_def)

lemma succeeds_Inr: "normalize_offer f ms a = Inr x \<Longrightarrow> succeeds f ms a"
  by (simp add: succeeds_def)

lemma normalize_loop_Inr:
  "normalize_loop f ms offers acc = Inr out \<Longrightarrow>
     list_all (succeeds f ms) offers \<and> out = acc @ List.map_filter (retained f ms) offers"
proof (induction offers arbitrary: acc)
  case Nil
  then show ?case by simp
next
  case (Cons a offers)
  show ?case
  proof (cases "normalize_offer f ms a")
    case (Inl e)
    with Cons.prems show ?thesis by simp
  next
    case (Inr x)
    note step = retained_Inr [OF Inr] succeeds_Inr [OF Inr]
    show ?thesis
    proof (cases x)
      case None
      with Inr Cons.prems have "normalize_loop f ms offers acc = Inr out" by simp
      from Cons.IH [OF this] step None show ?thesis by simp
    next
      case (Some r)
      with Inr Cons.prems have "normalize_loop f ms offers (acc @ [r]) = Inr out" by simp
      from Cons.IH [OF this] step Some show ?thesis by simp
    qed
  qed
qed

lemma normalize_offer_stops:
  "normalize_offer f ms offer = Inr (Some r) \<Longrightarrow>
     0 \<le> stops r \<and> (ms = 0 \<longrightarrow> stops r = 0) \<and> (ms = 1 \<longrightarrow> stops r \<le> 1)"
  unfolding normalize_offer_def Let_def
  by (auto split: list.splits sum.splits if_splits)

lemma map_filter_set: "r \<in> set (List.map_filter g xs) \<Longrightarrow> \<exists>x \<in> set xs. g x = Some r"
  by (auto simp: List.map_filter_def)

lemma parse_duration_empty: "parse_duration_to_hours [] = Inr None"
  by (simp add: parse_duration_to_hours_def)

lemma normalize_direct_offer: "normalize_offer no_float 1 direct_offer = Inr (Some direct_flight)"
  by (simp add: normalize_offer_def direct_offer_def example_offer_def example_segment_def
      get_default_def parse_duration_empty offer_price_value_def offer_currency_def
      endpoint_iata_def endpoint_at_def direct_flight_def)

lemma normalize_two_stop_offer: "normalize_offer no_float 1 two_stop_offer = Inr None"
  by (simp add: normalize_offer_def two_stop_offer_def example_offer_def example_segment_def
      get_default_def parse_duration_empty)

lemma example_normalize:
  "normalize no_float 1 [direct_offer, two_stop_offer] = Inr [direct_flight]"
  by (simp add: normalize_def normalize_direct_offer normalize_two_stop_offer)

lemma search_result_normalized:
  "fst (search_flights_amadeus cfg net f oc dc dd rd ms) = Inr out
     \<Longrightarrow> \<exists>offers. normalize f ms offers = Inr out"
  unfolding search_flights_amadeus_def Let_def
  by (auto split: prod.splits sum.splits response.splits body.splits if_splits)

text \<open>
  C1. Whatever the raw offers are, when the normalisation returns, every offer of its
  output has \<open>stops = 0\<close> if \<open>max_stops\<close> is 0 and \<open>stops \<le> 1\<close> if \<open>max_stops\<close> is 1.
\<close>

theorem stops_filter:
  assumes "normalize f ms offers = Inr out" and "r \<in> set out"
  shows "(ms = 0 \<longrightarrow> stops r = 0) \<and> (ms = 1 \<longrightarrow> stops r \<le> 1)"
proof -
  from assms(1) have "out = List.map_filter (retained f ms) offers"
    unfolding normalize_def by (drule_tac normalize_loop_Inr) simp
  with assms(2) obtain x where "retained f ms x = Some r"
    using map_filter_set by fastforce
  then have "normalize_offer f ms x = Inr (Some r)"
    by (auto simp: retained_def split: sum.splits)
  then show ?thesis using normalize_offer_stops by blast
qed

theorem stops_filter_witness:
  "normalize no_float 1 [direct_offer, two_stop_offer] = Inr [direct_flight]
   \<and> direct_flight \<in> set [direct_flight] \<and> stops direct_flight \<le> 1"
  using stops_filter [of no_float 1 "[direct_offer, two_stop_offer]" "[direct_flight]" direct_flight]
    example_normalize by simp


subsection \<open>Malformed records\<close>

lemma normalize_offer_malformed:
  "itineraries offer = None \<or> itineraries offer = Some [] \<or>
     (\<exists>it rest. itineraries offer = Some (it # rest) \<and> (segments it = None \<or> segments it = Some []))
   \<Longrightarrow> normalize_offer f ms offer = Inr None"
  unfolding normalize_offer_def get_default_def by auto

text \<open>
  C2. A raw offer without itineraries, or whose first itinerary has no segments, is
  skipped by the loop without an exception: its pass appends nothing, and the whole
  normalisation gives the same result (the same output or the same exception) as on the
  input without that offer.
\<close>

theorem malformed_offer_dropped:
  assumes "itineraries offer = None \<or> itineraries offer = Some [] \<or>
     (\<exists>it rest. itineraries offer = Some (it # rest) \<and> (segments it = None \<or> segments it = Some []))"
  shows "normalize_offer f ms offer = Inr None \<and>
         normalize f ms (before @ offer # after) = normalize f ms (before @ after)"
proof -
  have skip: "normalize_offer f ms offer = Inr None"
    using assms by (rule normalize_offer_malformed)
  have "normalize_loop f ms (before @ offer # after) [] = normalize_loop f ms (before @ after) []"
    by (simp add: normalize_loop_append skip split: sum.splits)
  with skip show ?thesis by (simp add: normalize_def)
qed


theorem malformed_offer_dropped_witness:
  "(itineraries no_segments_offer = None \<or> itineraries no_segments_offer = Some [] \<or>
     (\<exists>it rest. itineraries no_segments_offer = Some (it # rest)
        \<and> (segments it = None \<or> segments it = Some [])))
   \<and> normalize_offer no_float 1 no_segments_offer = Inr None
   \<and> normalize no_float 1 ([direct_offer] @ no_segments_offer # [two_stop_offer])
       = Inr [direct_flight]"
  using malformed_offer_dropped [of no_segments_offer no_float 1 "[direct_offer]" "[two_stop_offer]"]
    example_normalize by (simp add: no_segments_offer_def)

subsection \<open>Order of the output\<close>

lemma map_filter_snoc:
  "List.map_filter g (xs @ [x]) = List.map_filter g xs @ (case g x of None \<Rightarrow> [] | Some y \<Rightarrow> [y])"
  by (simp add: List.map_filter_def split: option.splits)

lemma map_filter_nth:
  "List.map_filter g xs =
     map (\<lambda>i. the (g (xs ! i))) (filter (\<lambda>i. g (xs ! i) \<noteq> None) [0..<length xs])"
proof (induction xs rule: rev_induct)
  case Nil
  then show ?case by simp
next
  case (snoc x xs)
  have f: "filter (\<lambda>i. g ((xs @ [x]) ! i) \<noteq> None) [0..<length xs]
             = filter (\<lambda>i. g (xs ! i) \<noteq> None) [0..<length xs]"
    by (rule filter_cong) (auto simp: nth_append)
  have m: "map (\<lambda>i. the (g ((xs @ [x]) ! i))) (filter (\<lambda>i. g (xs ! i) \<noteq> None) [0..<length xs])
             = map (\<lambda>i. the (g (xs ! i))) (filter (\<lambda>i. g (xs ! i) \<noteq> None) [0..<length xs])"
    by (rule map_cong) (auto simp: nth_append)
  have pre: "map (\<lambda>i. the (g ((xs @ [x]) ! i)))
               (filter (\<lambda>i. g ((xs @ [x]) ! i) \<noteq> None) [0..<length xs])
             = List.map_filter g xs"
    by (simp only: f m snoc.IH)
  show ?case
    by (cases "g x") (simp_all add: map_filter_snoc pre del: not_None_eq)
qed

lemma sorted_filter_upt: "sorted_wrt (<) (filter P [0..<n])"
  by (rule sorted_wrt_filter) simp


lemma normalize_one_stop_offer: "normalize_offer no_float 1 one_stop_offer = Inr (Some one_stop_flight)"
  by (simp add: normalize_offer_def one_stop_offer_def example_offer_def example_segment_def
      get_default_def parse_duration_empty offer_price_value_def offer_currency_def
      endpoint_iata_def endpoint_at_def direct_flight_def one_stop_flight_def)

lemma example_normalize3:
  "normalize no_float 1 [direct_offer, two_stop_offer, one_stop_offer]
     = Inr [direct_flight, one_stop_flight]"
  by (simp add: normalize_def normalize_direct_offer normalize_two_stop_offer
      normalize_one_stop_offer)

text \<open>
  C8. The output keeps the order of the provider's response: when the normalisation
  returns, its output consists of the records made from the offers at strictly
  increasing positions of the input, and every other offer of the input was skipped.
\<close>

theorem order_preserved:
  assumes "normalize f ms offers = Inr out"
  shows "\<exists>idx. length idx = length out \<and> sorted_wrt (<) idx \<and>
           (\<forall>k<length out. idx ! k < length offers \<and>
               normalize_offer f ms (offers ! (idx ! k)) = Inr (Some (out ! k))) \<and>
           (\<forall>i<length offers. i \<notin> set idx \<longrightarrow> normalize_offer f ms (offers ! i) = Inr None)"
proof -
  define idx where "idx = filter (\<lambda>i. retained f ms (offers ! i) \<noteq> None) [0..<length offers]"
  from assms have loop: "normalize_loop f ms offers [] = Inr out"
    by (simp add: normalize_def)
  note inv = normalize_loop_Inr [OF loop]
  from inv have ok: "list_all (succeeds f ms) offers" by (rule conjunct1)
  from inv have out: "out = List.map_filter (retained f ms) offers" by simp
  have res: "normalize_offer f ms (offers ! i) = Inr (retained f ms (offers ! i))"
    if "i < length offers" for i
  proof -
    from ok that have "succeeds f ms (offers ! i)" by (simp add: list_all_length)
    then show ?thesis by (simp add: succeeds_def retained_def split: sum.splits)
  qed
  have out_idx: "out = map (\<lambda>i. the (retained f ms (offers ! i))) idx"
    unfolding out idx_def by (rule map_filter_nth)
  have len: "length idx = length out" by (simp add: out_idx)
  have sorted: "sorted_wrt (<) idx" unfolding idx_def by (rule sorted_filter_upt)
  have kept: "\<forall>k<length out. idx ! k < length offers \<and>
              normalize_offer f ms (offers ! (idx ! k)) = Inr (Some (out ! k))"
  proof (intro allI impI)
    fix k assume k: "k < length out"
    with len have ki: "k < length idx" by simp
    then have "idx ! k \<in> set idx" by simp
    then have b: "idx ! k < length offers" and r: "retained f ms (offers ! (idx ! k)) \<noteq> None"
      by (simp_all add: idx_def)
    from r obtain y where y: "retained f ms (offers ! (idx ! k)) = Some y" by blast
    from ki have "out ! k = the (retained f ms (offers ! (idx ! k)))"
      unfolding out_idx by simp
    with y have "out ! k = y" by simp
    with res [OF b] y b
    show "idx ! k < length offers \<and>
          normalize_offer f ms (offers ! (idx ! k)) = Inr (Some (out ! k))" by simp
  qed
  have dropped: "\<forall>i<length offers. i \<notin> set idx \<longrightarrow> normalize_offer f ms (offers ! i) = Inr None"
  proof (intro allI impI)
    fix i assume i: "i < length offers" and n: "i \<notin> set idx"
    then have "retained f ms (offers ! i) = None" by (simp add: idx_def)
    with res [OF i] show "normalize_offer f ms (offers ! i) = Inr None" by simp
  qed
  show ?thesis
    by (rule exI [of _ idx]) (intro conjI len sorted kept dropped)
qed

theorem order_preserved_witness:
  "normalize no_float 1 [direct_offer, two_stop_offer, one_stop_offer]
     = Inr [direct_flight, one_stop_flight] \<and>
   (\<exists>idx. length idx = length [direct_flight, one_stop_flight] \<and> sorted_wrt (<) idx \<and>
      (\<forall>k<length [direct_flight, one_stop_flight].
          idx ! k < length [direct_offer, two_stop_offer, one_stop_offer] \<and>
          normalize_offer no_float 1 ([direct_offer, two_stop_offer, one_stop_offer] ! (idx ! k))
            = Inr (Some ([direct_flight, one_stop_flight] ! k))) \<and>
      (\<forall>i<length [direct_offer, two_stop_offer, one_stop_offer]. i \<notin> set idx \<longrightarrow>
          normalize_offer no_float 1 ([direct_offer, two_stop_offer, one_stop_offer] ! i) = Inr None))"
proof -
  note run = example_normalize3
  from run order_preserved [OF run] show ?thesis by (rule conjI)
qed


subsection \<open>Credentials, requests and responses\<close>

text \<open>
  C5. When the client identifier or the client secret is not configured (unset or
  empty), \<open>get_amadeus_access_token\<close> raises its exception with the configuration message
  and has sent no request, whatever the network would have answered.
\<close>

theorem missing_credentials_no_request:
  assumes "falsy (AMADEUS_CLIENT_ID cfg) \<or> falsy (AMADEUS_CLIENT_SECRET cfg)"
  shows "get_amadeus_access_token cfg net = (Inl (AmadeusError credentials_message), [])"
  using assms by (simp add: get_amadeus_access_token_def)

theorem missing_credentials_no_request_witness:
  "(falsy (AMADEUS_CLIENT_ID (sample_config\<lparr>AMADEUS_CLIENT_SECRET := None\<rparr>)) \<or>
    falsy (AMADEUS_CLIENT_SECRET (sample_config\<lparr>AMADEUS_CLIENT_SECRET := None\<rparr>))) \<and>
   get_amadeus_access_token (sample_config\<lparr>AMADEUS_CLIENT_SECRET := None\<rparr>) unreachable_network
     = (Inl (AmadeusError credentials_message), []) \<and>
   get_amadeus_access_token (sample_config\<lparr>AMADEUS_CLIENT_SECRET := None\<rparr>)
       (sample_network 200 (Json \<lparr>data = Some []\<rparr>))
     = (Inl (AmadeusError credentials_message), [])"
  using missing_credentials_no_request
          [of "sample_config\<lparr>AMADEUS_CLIENT_SECRET := None\<rparr>" unreachable_network]
        missing_credentials_no_request
          [of "sample_config\<lparr>AMADEUS_CLIENT_SECRET := None\<rparr>"
              "sample_network 200 (Json \<lparr>data = Some []\<rparr>)"]
  by (simp add: falsy_def)

lemma sample_token:
  "get_amadeus_access_token sample_config (sample_network code b)
     = (Inr ''tok'', [POST_token (token_form sample_config)])"
  by (simp add: get_amadeus_access_token_def sample_config_def sample_network_def falsy_def
      raises_for_status_def get_default_def)

lemma search_params_lookup:
  "map_of (search_params oc dc dd rd ms) ''adults'' = Some (PInt 1)"
  "map_of (search_params oc dc dd rd ms) ''currencyCode'' = Some (PStr ''AUD'')"
  "map_of (search_params oc dc dd rd ms) ''max'' = Some (PInt 20)"
  "map_of (search_params oc dc dd rd ms) ''returnDate''
     = (if falsy rd \<or> rd = Some dd then None else Some (PStr (get_default rd [])))"
  "map_of (search_params oc dc dd rd ms) ''nonStop''
     = (if ms = 0 then Some (PStr ''true'') else None)"
  by (simp_all add: search_params_def)

lemma sent_requests:
  "GET_offers auth ps \<in> set (snd (search_flights_amadeus cfg net f oc dc dd rd ms))
     \<Longrightarrow> ps = search_params oc dc dd rd ms"
  unfolding search_flights_amadeus_def get_amadeus_access_token_def Let_def
  by (auto split: prod.splits sum.splits response.splits body.splits if_splits)

text \<open>
  C6. Every search request that \<open>search_flights_amadeus\<close> sends carries \<open>returnDate\<close>
  only when a return date is given, and not when it equals the departure date; it
  carries \<open>nonStop\<close> exactly when \<open>max_stops\<close> is 0; and it always carries \<open>adults = 1\<close>,
  the currency \<open>AUD\<close> and \<open>max = 20\<close>.
\<close>

theorem search_request_parameters:
  assumes "GET_offers auth ps \<in> set (snd (search_flights_amadeus cfg net f oc dc dd rd ms))"
  shows "(map_of ps ''returnDate'' \<noteq> None \<longrightarrow> rd \<noteq> None) \<and>
         (rd = Some dd \<longrightarrow> map_of ps ''returnDate'' = None) \<and>
         (\<forall>d. rd = Some d \<and> d \<noteq> [] \<and> d \<noteq> dd \<longrightarrow> map_of ps ''returnDate'' = Some (PStr d)) \<and>
         (map_of ps ''nonStop'' = Some (PStr ''true'') \<longleftrightarrow> ms = 0) \<and>
         (map_of ps ''nonStop'' = None \<longleftrightarrow> ms \<noteq> 0) \<and>
         map_of ps ''adults'' = Some (PInt 1) \<and>
         map_of ps ''currencyCode'' = Some (PStr ''AUD'') \<and>
         map_of ps ''max'' = Some (PInt 20)"
proof -
  from assms have ps: "ps = search_params oc dc dd rd ms" by (rule sent_requests)
  show ?thesis unfolding ps search_params_lookup
    by (cases rd) (auto simp: falsy_def get_default_def)
qed

lemma sample_search_sent:
  "snd (search_flights_amadeus sample_config (sample_network 200 (Json \<lparr>data = Some []\<rparr>))
          no_float ''Sydney (SYD)'' ''mel'' ''2026-01-10'' (Some ''2026-01-10'') 0)
   = [POST_token (token_form sample_config),
      GET_offers ''Bearer tok''
        (search_params ''Sydney (SYD)'' ''mel'' ''2026-01-10'' (Some ''2026-01-10'') 0)]"
  by (simp add: search_flights_amadeus_def sample_token)
     (simp add: sample_network_def raises_for_status_def)

theorem search_request_parameters_witness:
  "GET_offers ''Bearer tok''
        (search_params ''Sydney (SYD)'' ''mel'' ''2026-01-10'' (Some ''2026-01-10'') 0)
     \<in> set (snd (search_flights_amadeus sample_config
                    (sample_network 200 (Json \<lparr>data = Some []\<rparr>))
                    no_float ''Sydney (SYD)'' ''mel'' ''2026-01-10'' (Some ''2026-01-10'') 0)) \<and>
   map_of (search_params ''Sydney (SYD)'' ''mel'' ''2026-01-10'' (Some ''2026-01-10'') 0)
      ''returnDate'' = None \<and>
   map_of (search_params ''Sydney (SYD)'' ''mel'' ''2026-01-10'' (Some ''2026-01-10'') 0)
      ''nonStop'' = Some (PStr ''true'') \<and>
   map_of (search_params ''Sydney (SYD)'' ''mel'' ''2026-01-10'' (Some ''2026-01-10'') 0)
      ''adults'' = Some (PInt 1)"
proof -
  have sent: "GET_offers ''Bearer tok''
        (search_params ''Sydney (SYD)'' ''mel'' ''2026-01-10'' (Some ''2026-01-10'') 0)
     \<in> set (snd (search_flights_amadeus sample_config
                    (sample_network 200 (Json \<lparr>data = Some []\<rparr>))
                    no_float ''Sydney (SYD)'' ''mel'' ''2026-01-10'' (Some ''2026-01-10'') 0))"
    unfolding sample_search_sent by simp
  from search_request_parameters [OF sent] sent show ?thesis by simp
qed

lemma normalize_nil: "normalize f ms [] = Inr []"
  by (simp add: normalize_def)

text \<open>
  C7. When the token is granted and the provider answers the search with a successful
  status and an empty \<open>data\<close> array, \<open>search_flights_amadeus\<close> returns the empty list and
  raises nothing.
\<close>

theorem empty_data_empty_result:
  assumes "fst (get_amadeus_access_token cfg net) = Inr token"
    and "offers_endpoint net (''Bearer '' @ token) (search_params oc dc dd rd ms)
           = HttpResponse code (Json payload)"
    and "\<not> raises_for_status code"
    and "data payload = Some []"
  shows "fst (search_flights_amadeus cfg net f oc dc dd rd ms) = Inr []"
  using assms
  by (cases "get_amadeus_access_token cfg net")
     (simp add: search_flights_amadeus_def get_default_def normalize_nil)

theorem empty_data_empty_result_witness:
  "fst (get_amadeus_access_token sample_config (sample_network 200 (Json \<lparr>data = Some []\<rparr>)))
     = Inr ''tok'' \<and>
   offers_endpoint (sample_network 200 (Json \<lparr>data = Some []\<rparr>)) (''Bearer '' @ ''tok'')
       (search_params ''SYD'' ''MEL'' ''2026-01-10'' None 1)
     = HttpResponse 200 (Json \<lparr>data = Some []\<rparr>) \<and>
   \<not> raises_for_status 200 \<and>
   data \<lparr>data = Some []\<rparr> = Some [] \<and>
   fst (search_flights_amadeus sample_config (sample_network 200 (Json \<lparr>data = Some []\<rparr>))
          no_float ''SYD'' ''MEL'' ''2026-01-10'' None 1) = Inr []"
proof -
  have a: "fst (get_amadeus_access_token sample_config
                 (sample_network 200 (Json \<lparr>data = Some []\<rparr>))) = Inr ''tok''"
    by (simp add: sample_token)
  have b: "offers_endpoint (sample_network 200 (Json \<lparr>data = Some []\<rparr>)) (''Bearer '' @ ''tok'')
       (search_params ''SYD'' ''MEL'' ''2026-01-10'' None 1)
     = HttpResponse 200 (Json \<lparr>data = Some []\<rparr>)"
    by (simp add: sample_network_def)
  have c: "\<not> raises_for_status 200" by (simp add: raises_for_status_def)
  have d: "data \<lparr>data = Some []\<rparr> = Some []" by simp
  from empty_data_empty_result [OF a b c d, of no_float] a b c d show ?thesis by blast
qed

subsection \<open>The exception class of the failures\<close>



text \<open>A token body that is JSON but no object escapes as \<open>AttributeError\<close>.\<close>

lemma token_body_not_object:
  assumes "\<not> falsy (AMADEUS_CLIENT_ID cfg)" and "\<not> falsy (AMADEUS_CLIENT_SECRET cfg)"
    and "token_endpoint net (token_form cfg) = HttpResponse code JsonOther"
    and "\<not> raises_for_status code"
  shows "fst (get_amadeus_access_token cfg net) = Inl AttributeError"
  using assms by (simp add: get_amadeus_access_token_def)






subsection \<open>The location code\<close>

lemma strip_prefix: "\<exists>w. dropWhile isspace s = strip s @ w"
proof -
  let ?u = "dropWhile isspace s"
  have "strip s @ rev (takeWhile isspace (rev ?u))
          = rev (takeWhile isspace (rev ?u) @ dropWhile isspace (rev ?u))"
    by (simp only: strip_def rev_append)
  also have "\<dots> = rev (rev ?u)" by (simp only: takeWhile_dropWhile_id)
  also have "\<dots> = ?u" by simp
  finally have "?u = strip s @ rev (takeWhile isspace (rev ?u))" by (rule sym)
  then show ?thesis by (rule exI)
qed

lemma strip_no_leading_space: "dropWhile isspace (strip s) = strip s"
proof (cases "strip s")
  case Nil
  then show ?thesis by simp
next
  case (Cons c cs)
  obtain w where w: "dropWhile isspace s = strip s @ w" using strip_prefix by blast
  with Cons have "dropWhile isspace s = c # cs @ w" by simp
  then have "\<not> isspace c"
    by (metis hd_dropWhile list.sel(1) list.distinct(1))
  with Cons show ?thesis by simp
qed

lemma strip_idem: "strip (strip s) = strip s"
proof -
  have "strip (strip s) = rev (dropWhile isspace (rev (strip s)))"
    unfolding strip_def [of "strip s"] strip_no_leading_space ..
  also have "\<dots> = strip s" by (simp add: strip_def)
  finally show ?thesis .
qed

lemma length_strip_le: "length (strip s) \<le> length s"
proof -
  have "length (dropWhile isspace (rev (dropWhile isspace s)))
          \<le> length (rev (dropWhile isspace s))"
    by (rule length_dropWhile_le)
  then have "length (strip s) \<le> length (dropWhile isspace s)"
    by (simp add: strip_def)
  also have "\<dots> \<le> length s" by (rule length_dropWhile_le)
  finally show ?thesis .
qed

lemma length_slice_le: "length (slice s i j) \<le> length s"
  by (simp add: slice_def)




lemma length_upper_char_le: "length (upper_char c) \<le> 2"
  by (simp add: upper_char_def Let_def)




lemma length_upper_le: "length (upper s) \<le> 2 * length s"
proof (induction s)
  case Nil
  then show ?case by (simp add: upper_def)
next
  case (Cons c s)
  then show ?case using length_upper_char_le [of c] by (simp add: upper_def)
qed


lemma set_strip: "set (strip s) \<subseteq> set s"
proof
  fix c assume "c \<in> set (strip s)"
  then have "c \<in> set (dropWhile isspace (rev (dropWhile isspace s)))" by (simp add: strip_def)
  then have "c \<in> set (rev (dropWhile isspace s))" by (rule set_dropWhileD)
  then have "c \<in> set (dropWhile isspace s)" by simp
  then show "c \<in> set s" by (rule set_dropWhileD)
qed

lemma set_slice: "set (slice s i j) \<subseteq> set s"
  by (auto simp: slice_def dest: in_set_takeD in_set_dropD)

lemma extract_iata_cases:
  "extract_iata s = take 3 (upper (strip s)) \<or>
   (\<exists>iata. length iata = 3 \<and> set iata \<subseteq> set s \<and> length iata \<le> length (strip s) \<and>
      extract_iata s = upper iata)"
proof -
  let ?text = "strip s"
  let ?iata = "strip (slice ?text (rfind ?text (CHR ''('') + 1) (rfind ?text (CHR '')'')))"
  have sub: "set ?iata \<subseteq> set s"
    using set_strip set_slice by (rule order_trans [OF _ order_trans [OF _ set_strip]])
  have len: "length ?iata \<le> length ?text"
    using length_strip_le length_slice_le by (rule order_trans)
  have "extract_iata s = take 3 (upper ?text) \<or> (length ?iata = 3 \<and> extract_iata s = upper ?iata)"
    by (simp add: extract_iata_def Let_def strip_idem)
  with sub len show ?thesis by blast
qed


lemma extract_iata_examples:
  "extract_iata ''Sydney (SYD)'' = code_points ''SYD''"
  "extract_iata ''syd'' = code_points ''SYD''"
  "extract_iata ''Sydney'' = code_points ''SYD''"
  by code_simp+

text \<open>With a sharp s between the parentheses the code has four characters.\<close>

lemma extract_iata_sharp_s:
  "extract_iata (''X ('' @ [sharp_s] @ ''ab)'') = code_points ''SSAB''"
  by code_simp

lemma extract_iata_length_le: "length (extract_iata s) \<le> 6"
proof -
  from extract_iata_cases [of s] show ?thesis
  proof (elim disjE exE conjE)
    assume "extract_iata s = take 3 (upper (strip s))"
    then show ?thesis by simp
  next
    fix iata assume "length iata = 3" and "extract_iata s = upper iata"
    with length_upper_le [of iata] show ?thesis by simp
  qed
qed




subsection \<open>Rounding to binary64\<close>

lemma round_half_even_error: "\<bar>of_int (round_half_even x) - x\<bar> \<le> 1 / 2"
proof -
  define f where "f = \<lfloor>x\<rfloor>"
  have a: "of_int f \<le> x" "x < of_int f + 1" unfolding f_def by linarith+
  have "round_half_even x = f \<and> x - of_int f \<le> 1 / 2 \<or>
        round_half_even x = f + 1 \<and> 1 / 2 \<le> x - of_int f"
    unfolding round_half_even_def Let_def f_def by auto
  then show ?thesis
  proof (elim disjE conjE)
    assume r: "round_half_even x = f" and "x - of_int f \<le> 1 / 2"
    with a have "\<bar>(of_int f :: rat) - x\<bar> \<le> 1 / 2" by linarith
    then show ?thesis by (simp only: r)
  next
    assume r: "round_half_even x = f + 1" and "1 / 2 \<le> x - of_int f"
    with a have "\<bar>(of_int f :: rat) + 1 - x\<bar> \<le> 1 / 2" by linarith
    then show ?thesis by (simp only: r of_int_add of_int_1)
  qed
qed

lemma round_half_even_unique:
  assumes "\<bar>x - of_int k\<bar> < 1 / 2"
  shows "round_half_even x = k"
proof -
  from round_half_even_error [of x] assms
  have "\<bar>(of_int (round_half_even x) :: rat) - of_int k\<bar> < 1" by linarith
  then have "\<bar>(of_int (round_half_even x - k) :: rat)\<bar> < 1" by simp
  then have "\<bar>round_half_even x - k\<bar> < 1"
    by (metis of_int_abs of_int_less_1_iff)
  then show ?thesis by linarith
qed

lemma round_half_even_of_int: "round_half_even (of_int k) = k"
  by (rule round_half_even_unique) simp

lemma round_half_even_nonneg: "0 \<le> x \<Longrightarrow> 0 \<le> round_half_even x"
  unfolding round_half_even_def Let_def by (auto simp: zero_le_floor) 

lemma power_int_2_pos: "0 < (2::rat) powi e"
  by (simp add: power_int_def)

lemma power_int_2_mono: "a \<le> b \<Longrightarrow> (2::rat) powi a \<le> 2 powi b"
  by (rule power_int_increasing) simp_all

lemma floor_log2_bounds:
  assumes "0 < q"
  shows "2 powi (floor_log2 q) \<le> q" and "q < 2 powi (floor_log2 q + 1)"
proof -
  obtain a b where ab: "quotient_of q = (a, b)" by (cases "quotient_of q")
  then have b: "0 < b" by (rule quotient_of_denom_pos)
  from ab have q: "q = of_int a / of_int b" by (rule quotient_of_div)
  with assms b have a: "0 < a" by (simp add: zero_less_divide_iff)
  define la where "la = floorlog 2 (nat a)"
  define lb where "lb = floorlog 2 (nat b)"
  from a have na: "2 ^ (la - 1) \<le> nat a" "nat a < 2 ^ la"
    unfolding la_def using floorlog_bounds [of "nat a" 2] by simp_all
  from b have nb: "2 ^ (lb - 1) \<le> nat b" "nat b < 2 ^ lb"
    unfolding lb_def using floorlog_bounds [of "nat b" 2] by simp_all
  from a have la: "0 < la" unfolding la_def by (simp add: floorlog_def)
  from b have lb: "0 < lb" unfolding lb_def by (simp add: floorlog_def)
  have ra: "(2::rat) ^ (la - 1) \<le> of_int a" "(of_int a :: rat) < 2 ^ la"
  proof -
    from na(1) have "(of_nat (2 ^ (la - 1)) :: rat) \<le> of_nat (nat a)" by (simp only: of_nat_le_iff)
    with a show "(2::rat) ^ (la - 1) \<le> of_int a" by simp
    from na(2) have "(of_nat (nat a) :: rat) < of_nat (2 ^ la)" by (simp only: of_nat_less_iff)
    with a show "(of_int a :: rat) < 2 ^ la" by simp
  qed
  have rb: "(2::rat) ^ (lb - 1) \<le> of_int b" "(of_int b :: rat) < 2 ^ lb"
  proof -
    from nb(1) have "(of_nat (2 ^ (lb - 1)) :: rat) \<le> of_nat (nat b)" by (simp only: of_nat_le_iff)
    with b show "(2::rat) ^ (lb - 1) \<le> of_int b" by simp
    from nb(2) have "(of_nat (nat b) :: rat) < of_nat (2 ^ lb)" by (simp only: of_nat_less_iff)
    with b show "(of_int b :: rat) < 2 ^ lb" by simp
  qed
  define d where "d = int la - int lb"
  have fl: "floor_log2 q = (if 2 powi d \<le> q then d else d - 1)"
    by (simp add: floor_log2_def ab d_def la_def lb_def)
  have pa: "(2::rat) ^ (la - 1) = 2 powi (int la - 1)"
    using la by (simp add: power_int_def nat_diff_distrib)
  have pb: "(2::rat) ^ (lb - 1) = 2 powi (int lb - 1)"
    using lb by (simp add: power_int_def nat_diff_distrib)
  have bpos: "(0::rat) < of_int b" using b by simp
  have apos: "(0::rat) \<le> of_int a" using a by simp
  have ra1: "(2::rat) powi (int la - 1) \<le> of_int a" using ra(1) unfolding pa .
  have rb1: "(2::rat) powi (int lb - 1) \<le> of_int b" using rb(1) unfolding pb .
  have rb2: "(of_int b :: rat) \<le> 2 powi (int lb)" using rb(2) by simp
  have low: "2 powi (d - 1) \<le> q"
  proof -
    have "(2::rat) powi (d - 1) = 2 powi (int la - 1) / 2 powi (int lb)"
      unfolding d_def by (simp add: power_int_diff)
    also have "\<dots> \<le> of_int a / of_int b"
      by (rule frac_le [OF apos ra1 bpos rb2])
    finally show ?thesis by (simp add: q)
  qed
  have ra2s: "(of_int a :: rat) < 2 powi (int la)" using ra(2) by simp
  have e: "d + 1 = int la - (int lb - 1)" by (simp add: d_def)
  have high: "q < 2 powi (d + 1)"
  proof -
    have "q < 2 powi (int la) / of_int b"
      unfolding q by (rule divide_strict_right_mono [OF ra2s bpos])
    also have "\<dots> \<le> 2 powi (int la) / 2 powi (int lb - 1)"
      by (rule frac_le [OF less_imp_le [OF power_int_2_pos] order_refl power_int_2_pos rb1])
    also have "\<dots> = 2 powi (d + 1)"
      unfolding e by (rule power_int_diff [symmetric]) simp
    finally show ?thesis .
  qed
  show "2 powi (floor_log2 q) \<le> q" using low by (simp add: fl)
  show "q < 2 powi (floor_log2 q + 1)" using high by (auto simp: fl not_le)
qed


lemma floor_log2_less:
  assumes "0 < q" and "q < 2 powi k"
  shows "floor_log2 q < k"
proof (rule ccontr)
  assume "\<not> floor_log2 q < k"
  then have "k \<le> floor_log2 q" by simp
  then have "(2::rat) powi k \<le> 2 powi (floor_log2 q)" by (rule power_int_2_mono)
  also have "\<dots> \<le> q" using assms(1) by (rule floor_log2_bounds)
  finally show False using assms(2) by simp
qed

lemma floor_log2_ge:
  assumes "0 < q" and "2 powi k \<le> q"
  shows "k \<le> floor_log2 q"
proof (rule ccontr)
  assume "\<not> k \<le> floor_log2 q"
  then have "floor_log2 q + 1 \<le> k" by simp
  then have "(2::rat) powi (floor_log2 q + 1) \<le> 2 powi k" by (rule power_int_2_mono)
  with floor_log2_bounds(2) [OF assms(1)] assms(2) show False by simp
qed

text \<open>The rounding error of \<open>binary64\<close> on a positive value below \<open>2 powi k\<close>.\<close>

lemma binary64_error:
  assumes "0 < q" and "q < 2 powi k" and "- 1022 < k"
  shows "\<bar>binary64 q - q\<bar> \<le> 2 powi (k - 54)"
proof -
  define e where "e = max (floor_log2 \<bar>q\<bar>) (- 1022)"
  define u :: rat where "u = 2 powi (e - 52)"
  have upos: "0 < u" unfolding u_def by (rule power_int_2_pos)
  from assms have "floor_log2 \<bar>q\<bar> < k" by (simp add: floor_log2_less)
  with assms(3) have "e \<le> k - 1" unfolding e_def by simp
  then have "e - 52 \<le> k - 53" by simp
  then have ule: "u \<le> 2 powi (k - 53)" unfolding u_def by (rule power_int_2_mono)
  have b: "binary64 q = of_int (round_half_even (q / u)) * u"
    using assms(1) by (simp add: binary64_def Let_def e_def u_def)
  have "binary64 q - q = (of_int (round_half_even (q / u)) - q / u) * u"
    using upos by (simp add: b left_diff_distrib)
  then have "\<bar>binary64 q - q\<bar> = \<bar>of_int (round_half_even (q / u)) - q / u\<bar> * \<bar>u\<bar>"
    by (simp only: abs_mult)
  also have "\<bar>u\<bar> = u" using upos by simp
  finally have "\<bar>binary64 q - q\<bar> = \<bar>of_int (round_half_even (q / u)) - q / u\<bar> * u" .
  also have "\<dots> \<le> 1 / 2 * u"
    by (rule mult_right_mono [OF round_half_even_error less_imp_le [OF upos]])
  also have "\<dots> \<le> 1 / 2 * 2 powi (k - 53)"
    using ule by simp
  also have "\<dots> = 2 powi (k - 54)"
  proof -
    have "(2::rat) powi (k - 53) = 2 powi ((k - 54) + 1)" by simp
    also have "\<dots> = 2 powi (k - 54) * 2" by (rule power_int_add_1) simp
    finally show ?thesis by simp
  qed
  finally show ?thesis .
qed

lemma binary64_nonneg: "0 \<le> q \<Longrightarrow> 0 \<le> binary64 q"
  by (simp add: binary64_def Let_def round_half_even_nonneg less_imp_le [OF power_int_2_pos])


lemma binary64_zero: "binary64 0 = 0"
  by (simp add: binary64_def)

lemma binary64_of_int_exact:
  assumes "0 \<le> n" and "n < 2 ^ 53"
  shows "binary64 (of_int n) = of_int n"
proof (cases "n = 0")
  case True
  then show ?thesis by (simp add: binary64_zero)
next
  case False
  with assms(1) have n: "0 < n" by simp
  define q :: rat where "q = of_int n"
  have qpos: "0 < q" using n by (simp add: q_def)
  have "(2::rat) powi 0 \<le> q" using n by (simp add: q_def)
  with qpos have lo: "0 \<le> floor_log2 q" by (rule floor_log2_ge)
  have "q < of_int (2 ^ 53)" unfolding q_def using assms(2) by (simp only: of_int_less_iff)
  then have "q < 2 powi 53" by simp
  with qpos have hi: "floor_log2 q < 53" by (rule floor_log2_less)
  define j where "j = nat (52 - floor_log2 q)"
  have u: "(2::rat) powi (floor_log2 q - 52) = 1 / 2 ^ j"
  proof -
    have "floor_log2 q - 52 = - int j" using hi by (simp add: j_def)
    then show ?thesis by (simp add: power_int_minus_divide)
  qed
  have "q / (1 / 2 ^ j) = of_int (n * 2 ^ j)" by (simp add: q_def)
  then have r: "round_half_even (q / (1 / 2 ^ j)) = n * 2 ^ j"
    by (simp only: round_half_even_of_int)
  have "binary64 q = of_int (round_half_even (q / (1 / 2 ^ j))) * (1 / 2 ^ j)"
    using qpos lo u by (simp add: binary64_def Let_def max_def)
  also have "\<dots> = q" unfolding r by (simp add: q_def)
  finally show ?thesis by (simp add: q_def)
qed

lemma below_float_max: "q < 2 ^ 60 \<Longrightarrow> q < float_max_bound"
proof -
  assume "q < 2 ^ 60"
  also have "(2::rat) ^ 60 \<le> 2 ^ 1024" by (rule power_increasing) simp_all
  finally show ?thesis by (simp add: float_max_bound_def)
qed

lemma binary64_below:
  assumes "0 \<le> q" and "q < 2 ^ 59"
  shows "binary64 q < 2 ^ 60"
proof (cases "q = 0")
  case True
  then show ?thesis by (simp add: binary64_zero)
next
  case False
  with assms(1) have qpos: "0 < q" by simp
  from assms(2) have "q < 2 powi 59" by simp
  with qpos have "\<bar>binary64 q - q\<bar> \<le> 2 powi (59 - 54)" by (rule binary64_error) simp
  then have "binary64 q \<le> q + 2 ^ 5" by simp
  also have "\<dots> < 2 ^ 59 + 2 ^ 59" using assms(2) by (intro add_less_le_mono) simp_all
  also have "\<dots> = (2::rat) ^ 60" by simp
  finally show ?thesis .
qed

lemma to_pyfloat_finite:
  assumes "0 \<le> q" and "q < 2 ^ 59"
  shows "to_pyfloat q = Finite (binary64 q)"
proof -
  from assms have "binary64 q < float_max_bound"
    by (intro below_float_max binary64_below)
  moreover from assms(1) have "0 \<le> binary64 q" by (rule binary64_nonneg)
  ultimately show ?thesis by (simp add: to_pyfloat_def Let_def)
qed

lemma int_to_float_exact:
  assumes "0 \<le> n" and "n < 2 ^ 53"
  shows "int_to_float n = Inr (Finite (of_int n))"
proof -
  have "(of_int n :: rat) < of_int (2 ^ 53)" using assms(2) by (simp only: of_int_less_iff)
  also have "\<dots> \<le> 2 ^ 60" by simp
  finally have "(of_int n :: rat) < float_max_bound" by (rule below_float_max)
  with assms show ?thesis
    by (simp add: int_to_float_def Let_def binary64_of_int_exact)
qed

lemma binary64_close:
  assumes "0 \<le> q" and "q < 2 powi k" and "- 1022 < k"
  shows "\<bar>binary64 q - q\<bar> \<le> 2 powi (k - 54)"
proof (cases "q = 0")
  case True
  then show ?thesis by (simp add: binary64_zero less_imp_le [OF power_int_2_pos])
next
  case False
  with assms(1) have "0 < q" by simp
  then show ?thesis using assms(2,3) by (rule binary64_error)
qed

text \<open>The float expression of \<open>hours_value\<close> for operands that convert exactly.\<close>

lemma hours_value_finite:
  assumes "0 \<le> h" and "h < 2 ^ 53" and "0 \<le> m" and "m < 2 ^ 53"
  shows "hours_value h m =
           Inr (Finite (binary64 (of_int (round_half_even
                  (binary64 (of_int h + binary64 (of_int m / 60)) * 100)) / 100)))"
proof -
  define x1 where "x1 = binary64 (of_int m / 60)"
  have hq: "(0::rat) \<le> of_int h" "(of_int h :: rat) < 2 ^ 53"
  proof -
    show "(0::rat) \<le> of_int h" using assms(1) by simp
    have "(of_int h :: rat) < of_int (2 ^ 53)" using assms(2) by (simp only: of_int_less_iff)
    then show "(of_int h :: rat) < 2 ^ 53" by simp
  qed
  have mq: "(0::rat) \<le> of_int m / 60" "(of_int m :: rat) / 60 < 2 ^ 53"
  proof -
    show "(0::rat) \<le> of_int m / 60" using assms(3) by simp
    have "(of_int m :: rat) < of_int (2 ^ 53)" using assms(4) by (simp only: of_int_less_iff)
    then have "(of_int m :: rat) < 2 ^ 53" by simp
    moreover have "(of_int m :: rat) / 60 \<le> of_int m" using assms(3) by simp
    ultimately show "(of_int m :: rat) / 60 < 2 ^ 53" by simp
  qed
  from mq(2) have "(of_int m :: rat) / 60 < 2 powi 53" by simp
  with mq(1) have "\<bar>x1 - of_int m / 60\<bar> \<le> 2 powi (53 - 54)"
    unfolding x1_def by (rule binary64_close) simp
  also have "(2::rat) powi (53 - 54) = 1 / 2" by simp
  finally have x1_hi: "x1 \<le> of_int m / 60 + 1" by linarith
  have x1_lo: "0 \<le> x1" unfolding x1_def using mq(1) by (rule binary64_nonneg)
  have d: "to_pyfloat (of_int m / 60) = Finite x1"
  proof -
    from mq(2) have "(of_int m :: rat) / 60 < 2 ^ 59" by simp
    with mq(1) show ?thesis by (simp add: to_pyfloat_finite x1_def)
  qed
  have s: "to_pyfloat (of_int h + x1) = Finite (binary64 (of_int h + x1))"
  proof -
    have "0 \<le> of_int h + x1" using hq(1) x1_lo by simp
    moreover have "of_int h + x1 < 2 ^ 59" using hq(2) x1_hi mq(2) by simp
    ultimately show ?thesis by (simp add: to_pyfloat_finite)
  qed
  note im = int_to_float_exact [OF assms(3,4)]
  note ih = int_to_float_exact [OF assms(1,2)]
  show ?thesis
    by (simp add: hours_value_def im ih d s) (simp add: x1_def)
qed

lemma third_near_int: "\<exists>k. \<bar>(of_int n :: rat) / 3 - of_int k\<bar> \<le> 1 / 3"
proof -
  have n: "n = 3 * (n div 3) + n mod 3" by simp
  have r: "n mod 3 = 0 \<or> n mod 3 = 1 \<or> n mod 3 = 2" by presburger
  then show ?thesis
  proof (elim disjE)
    assume "n mod 3 = 0"
    with n have "n = 3 * (n div 3)" by simp
    then have "(of_int n :: rat) = 3 * of_int (n div 3)" by (metis of_int_mult of_int_numeral)
    then have "\<bar>(of_int n :: rat) / 3 - of_int (n div 3)\<bar> \<le> 1 / 3" by linarith
    then show ?thesis by (rule exI)
  next
    assume "n mod 3 = 1"
    with n have "n = 3 * (n div 3) + 1" by simp
    then have "(of_int n :: rat) = 3 * of_int (n div 3) + 1"
      by (metis of_int_mult of_int_numeral of_int_add of_int_1)
    then have "\<bar>(of_int n :: rat) / 3 - of_int (n div 3)\<bar> \<le> 1 / 3" by linarith
    then show ?thesis by (rule exI)
  next
    assume "n mod 3 = 2"
    define k where "k = n div 3 + 1"
    with n \<open>n mod 3 = 2\<close> have "n = 3 * k - 1" by simp
    then have "(of_int n :: rat) = 3 * of_int k - 1"
      by (metis of_int_mult of_int_numeral of_int_diff of_int_1)
    then have "\<bar>(of_int n :: rat) / 3 - of_int k\<bar> \<le> 1 / 3" by linarith
    then show ?thesis by (rule exI)
  qed
qed

text \<open>
  Up to 13 digits for the hours and for the minutes, the two roundings of the float
  expression cannot move the value across a boundary between two-decimal numbers.
\<close>

lemma duration_rounding:
  assumes "0 \<le> h" and "h < 10 ^ 13" and "0 \<le> m" and "m < 10 ^ 13"
  shows "round_half_even (binary64 (of_int h + binary64 (of_int m / 60)) * 100)
           = round (100 * (of_int h + of_int m / 60 :: rat))"
proof -
  define H :: rat where "H = of_int h"
  define M :: rat where "M = of_int m"
  define x1 where "x1 = binary64 (M / 60)"
  define x2 where "x2 = binary64 (H + x1)"
  have H: "0 \<le> H" "H < 10000000000000"
  proof -
    show "0 \<le> H" using assms(1) by (simp add: H_def)
    have "(of_int h :: rat) < of_int (10 ^ 13)" using assms(2) by (simp only: of_int_less_iff)
    then show "H < 10000000000000" by (simp add: H_def)
  qed
  have M: "0 \<le> M" "M < 10000000000000"
  proof -
    show "0 \<le> M" using assms(3) by (simp add: M_def)
    have "(of_int m :: rat) < of_int (10 ^ 13)" using assms(4) by (simp only: of_int_less_iff)
    then show "M < 10000000000000" by (simp add: M_def)
  qed
  have p16: "(2::rat) powi (38 - 54) = 1 / 65536"
  proof -
    have "(2::rat) powi (38 - 54) = 2 powi (- 16)" by simp
    also have "\<dots> = 1 / 2 powi 16" by (rule power_int_minus_divide)
    also have "\<dots> = 1 / 65536" by simp
    finally show ?thesis .
  qed
  have p10: "(2::rat) powi (44 - 54) = 1 / 1024"
  proof -
    have "(2::rat) powi (44 - 54) = 2 powi (- 10)" by simp
    also have "\<dots> = 1 / 2 powi 10" by (rule power_int_minus_divide)
    also have "\<dots> = 1 / 1024" by simp
    finally show ?thesis .
  qed
  have "M / 60 < 274877906944" using M(2) by linarith
  then have "M / 60 < 2 powi 38" by simp
  moreover have "0 \<le> M / 60" using M(1) by simp
  ultimately have "\<bar>x1 - M / 60\<bar> \<le> 2 powi (38 - 54)"
    unfolding x1_def by (intro binary64_close) simp_all
  then have e1: "\<bar>x1 - M / 60\<bar> \<le> 1 / 65536" by (simp only: p16)
  have x1_lo: "0 \<le> x1" unfolding x1_def using M(1) by (intro binary64_nonneg) simp
  have s_lo: "0 \<le> H + x1" using H(1) x1_lo by simp
  have "H + x1 < 17592186044416" using H(2) M(2) e1 by linarith
  then have s_hi: "H + x1 < 2 powi 44" by simp
  from s_lo s_hi have "\<bar>x2 - (H + x1)\<bar> \<le> 2 powi (44 - 54)"
    unfolding x2_def by (rule binary64_close) simp
  then have e2: "\<bar>x2 - (H + x1)\<bar> \<le> 1 / 1024" by (simp only: p10)
  obtain k where k: "\<bar>(of_int (300 * h + 5 * m) :: rat) / 3 - of_int k\<bar> \<le> 1 / 3"
    using third_near_int by blast
  define Y where "Y = 100 * H + 100 * (M / 60)"
  have y: "(of_int (300 * h + 5 * m) :: rat) / 3 = Y"
    by (simp add: Y_def H_def M_def field_simps)
  have Y: "100 * (H + M / 60) = Y" by (simp add: Y_def distrib_left)
  have k': "\<bar>Y - of_int k\<bar> \<le> 1 / 3"
    using k unfolding y .
  from e1 have f1: "x1 - M / 60 \<le> 1 / 65536" "M / 60 - x1 \<le> 1 / 65536"
    by linarith+
  from e2 have f2: "x2 - (H + x1) \<le> 1 / 1024" "H + x1 - x2 \<le> 1 / 1024"
    by linarith+
  from k' have f3: "Y - of_int k \<le> 1 / 3" "of_int k - Y \<le> 1 / 3"
    by linarith+
  have "x2 * 100 - of_int k < 1 / 2" using f1 f2 f3 Y_def by linarith
  moreover have "of_int k - x2 * 100 < 1 / 2" using f1 f2 f3 Y_def by linarith
  ultimately have a: "\<bar>x2 * 100 - of_int k\<bar> < 1 / 2" by linarith
  have b: "\<bar>100 * (H + M / 60) - of_int k\<bar> < 1 / 2" unfolding Y using k' by linarith
  from a have "round_half_even (x2 * 100) = k" by (rule round_half_even_unique)
  moreover from b have "round (100 * (H + M / 60)) = k" by (rule round_unique')
  ultimately show ?thesis by (simp add: x2_def x1_def H_def M_def)
qed


subsection \<open>Scanning a duration token\<close>

lemma isdecimal_isdigit: "isdecimal c \<Longrightarrow> isdigit c"
  by (simp add: isdecimal_def isdigit_def Let_def)

lemma scan_duration_digits:
  "list_all isdecimal ds \<Longrightarrow>
     scan_duration (ds @ rest) hours minutes num = scan_duration rest hours minutes (num @ ds)"
  by (induction ds arbitrary: num) (simp_all add: isdecimal_isdigit)

lemma digits_value_snoc: "digits_value (ds @ [c]) = 10 * digits_value ds + digit_value c"
  by (simp add: digits_value_def)

lemma digit_value_range: "isdecimal c \<Longrightarrow> 0 \<le> digit_value c \<and> digit_value c \<le> 9"
  by (auto simp: isdecimal_def digit_value_def Let_def)

lemma digits_value_range:
  "list_all isdecimal ds \<Longrightarrow> 0 \<le> digits_value ds \<and> digits_value ds < 10 ^ length ds"
proof (induction ds rule: rev_induct)
  case Nil
  then show ?case by (simp add: digits_value_def)
next
  case (snoc c ds)
  then have ih: "0 \<le> digits_value ds" "digits_value ds + 1 \<le> 10 ^ length ds" by simp_all
  from snoc.prems have c: "0 \<le> digit_value c" "digit_value c \<le> 9"
    using digit_value_range [of c] by simp_all
  have "10 * digits_value ds + digit_value c < 10 * (digits_value ds + 1)" using c by simp
  also have "\<dots> \<le> 10 * 10 ^ length ds" using ih(2) by simp
  finally show ?case using ih(1) c(1) by (simp add: digits_value_snoc)
qed

lemma py_int_digits:
  "list_all isdecimal ds \<Longrightarrow> length ds \<le> int_max_str_digits \<Longrightarrow> py_int ds = Inr (digits_value ds)"
  by (simp add: py_int_def)

lemma not_digit_HM: "\<not> isdigit CHR ''H''" "\<not> isdigit CHR ''M''"
  by (simp_all add: isdigit_def)

lemma scan_duration_token:
  assumes "hs \<noteq> []" and "ms \<noteq> []" and "list_all isdecimal hs" and "list_all isdecimal ms"
    and "length hs \<le> int_max_str_digits" and "length ms \<le> int_max_str_digits"
  shows "scan_duration (hs @ ''H'' @ ms @ ''M'') 0 0 [] = Inr (digits_value hs, digits_value ms)"
proof -
  have "scan_duration (hs @ ''H'' @ ms @ ''M'') 0 0 []
          = scan_duration (''H'' @ ms @ ''M'') 0 0 hs"
    using assms(3) by (simp add: scan_duration_digits)
  also have "\<dots> = scan_duration (ms @ ''M'') (digits_value hs) 0 []"
    using assms(1,3,5) by (simp add: not_digit_HM py_int_digits)
  also have "\<dots> = scan_duration ''M'' (digits_value hs) 0 ms"
    using assms(4) by (simp add: scan_duration_digits)
  also have "\<dots> = Inr (digits_value hs, digits_value ms)"
    using assms(2,4,6) by (simp add: not_digit_HM py_int_digits)
  finally show ?thesis .
qed

subsection \<open>Evaluating the float expression\<close>

lemma floor_log2_unique:
  assumes "0 < q" and "2 powi e \<le> q" and "q < 2 powi (e + 1)"
  shows "floor_log2 q = e"
proof -
  from assms(1,2) have "e \<le> floor_log2 q" by (rule floor_log2_ge)
  moreover from assms(1,3) have "floor_log2 q < e + 1" by (rule floor_log2_less)
  ultimately show ?thesis by simp
qed

text \<open>The value of \<open>binary64\<close> at a given positive number, from its binade and the nearest
  multiple of the unit in the last place.\<close>

lemma binary64_eval:
  assumes "0 < q" and "2 powi e \<le> q" and "q < 2 powi (e + 1)" and "- 1022 \<le> e"
    and "u = 2 powi (e - 52)" and "\<bar>q / u - of_int n\<bar> < 1 / 2"
  shows "binary64 q = of_int n * u"
proof -
  from assms(1) have "floor_log2 \<bar>q\<bar> = floor_log2 q" by simp
  also from assms(1-3) have "\<dots> = e" by (rule floor_log2_unique)
  finally have e: "max (floor_log2 \<bar>q\<bar>) (- 1022) = e" using assms(4) by simp
  from assms(6) have "round_half_even (q / u) = n" by (rule round_half_even_unique)
  with assms(1) e show ?thesis by (simp add: binary64_def Let_def assms(5))
qed

lemma power_int_neg: "(2::rat) powi (- int j) = 1 / 2 ^ j"
  by (simp add: power_int_minus_divide)

lemma binary64_one_thirtieth: "binary64 (1 / 30) = 4803839602528529 / 144115188075855872"
proof -
  have u: "(1 / 144115188075855872 :: rat) = 2 powi (- 5 - 52)"
    using power_int_neg [of 57] by simp
  have lo: "(2::rat) powi (- 5) = 1 / 32" using power_int_neg [of 5] by simp
  have hi: "(2::rat) powi (- 5 + 1) = 1 / 16" using power_int_neg [of 4] by simp
  have "binary64 (1 / 30) = of_int 4803839602528529 * (1 / 144115188075855872)"
    by (rule binary64_eval [where e = "- 5"]) (simp_all add: lo hi u [symmetric])
  then show ?thesis by simp
qed

lemma binary64_example_sum: "binary64 (17592186044416 + 4803839602528529 / 144115188075855872)
             = 4503599627370505 / 256"
proof -
  have u: "(1 / 256 :: rat) = 2 powi (44 - 52)" using power_int_neg [of 8] by simp
  have "binary64 (17592186044416 + 4803839602528529 / 144115188075855872)
          = of_int 4503599627370505 * (1 / 256)"
    by (rule binary64_eval [where e = 44]) (simp_all add: u [symmetric])
  then show ?thesis by simp
qed

lemma round_example_sum: "round_half_even (4503599627370505 / 256 * 100) = 1759218604441604"
  by (rule round_half_even_unique) simp

lemma binary64_example_result: "binary64 (1759218604441604 / 100) = 2251799813685253 / 128"
proof -
  have u: "(1 / 256 :: rat) = 2 powi (44 - 52)" using power_int_neg [of 8] by simp
  have "binary64 (1759218604441604 / 100) = of_int 4503599627370506 * (1 / 256)"
    by (rule binary64_eval [where e = 44]) (simp_all add: u [symmetric])
  then show ?thesis by simp
qed

lemma round_example_exact: "round (100 * (17592186044416 + 2 / 60 :: rat)) = 1759218604441603"
  by (rule round_unique') simp

lemma binary64_example_exact: "binary64 (1759218604441603 / 100) = 562949953421313 / 32"
proof -
  have u: "(1 / 256 :: rat) = 2 powi (44 - 52)" using power_int_neg [of 8] by simp
  have "binary64 (1759218604441603 / 100) = of_int 4503599627370504 * (1 / 256)"
    by (rule binary64_eval [where e = 44]) (simp_all add: u [symmetric])
  then show ?thesis by simp
qed

lemma parse_duration_PT:
  "parse_duration_to_hours (''PT'' @ rest) =
     (case scan_duration rest 0 0 [] of
        Inl e \<Rightarrow> Inl e
      | Inr (hours, minutes) \<Rightarrow>
          (case hours_value hours minutes of Inl e \<Rightarrow> Inl e | Inr v \<Rightarrow> Inr (Some v)))"
  by (simp add: parse_duration_to_hours_def)

lemma hours_value_accurate:
  assumes "0 \<le> h" and "h < 10 ^ 13" and "0 \<le> m" and "m < 10 ^ 13"
  shows "hours_value h m =
           Inr (Finite (binary64 (of_int (round (100 * (of_int h + of_int m / 60 :: rat))) / 100)))"
proof -
  have "(10::int) ^ 13 \<le> 2 ^ 53" by simp
  with assms have "h < 2 ^ 53" "m < 2 ^ 53" by linarith+
  with assms(1,3) have "hours_value h m =
           Inr (Finite (binary64 (of_int (round_half_even
                  (binary64 (of_int h + binary64 (of_int m / 60)) * 100)) / 100)))"
    by (intro hours_value_finite)
  then show ?thesis by (simp only: duration_rounding [OF assms])
qed

lemma digits_value_13:
  assumes "list_all isdecimal ds" and "length ds \<le> 13"
  shows "0 \<le> digits_value ds" and "digits_value ds < 10 ^ 13"
proof -
  from assms(1) have r: "0 \<le> digits_value ds" "digits_value ds < 10 ^ length ds"
    using digits_value_range by simp_all
  show "0 \<le> digits_value ds" by (rule r(1))
  have "(10::int) ^ length ds \<le> 10 ^ 13" using assms(2) by (intro power_increasing) simp_all
  with r(2) show "digits_value ds < 10 ^ 13" by simp
qed

lemma parse_duration_token:
  assumes "hs \<noteq> []" and "ms \<noteq> []" and "list_all isdecimal hs" and "list_all isdecimal ms"
    and "length hs \<le> 13" and "length ms \<le> 13"
  shows "parse_duration_to_hours (''PT'' @ hs @ ''H'' @ ms @ ''M'') =
           Inr (Some (Finite (binary64 (of_int (round
             (100 * (of_int (digits_value hs) + of_int (digits_value ms) / 60 :: rat))) / 100))))"
proof -
  from assms(5,6) have len: "length hs \<le> int_max_str_digits" "length ms \<le> int_max_str_digits"
    by (simp_all add: int_max_str_digits_def)
  have scan: "scan_duration (hs @ ''H'' @ ms @ ''M'') 0 0 [] = Inr (digits_value hs, digits_value ms)"
    using assms(1-4) len by (rule scan_duration_token)
  note hv = hours_value_accurate [OF digits_value_13 [OF assms(3,5)] digits_value_13 [OF assms(4,6)]]
  show ?thesis by (simp only: parse_duration_PT scan hv sum.case prod.case)
qed

lemma binary64_3_4: "binary64 (3 / 4) = 3 / 4"
proof -
  have u: "(1 / 9007199254740992 :: rat) = 2 powi (- 1 - 52)"
    using power_int_neg [of 53] by simp
  have lo: "(2::rat) powi (- 1) = 1 / 2" by simp
  have "binary64 (3 / 4) = of_int 6755399441055744 * (1 / 9007199254740992)"
    by (rule binary64_eval [where e = "- 1"]) (simp_all add: lo u [symmetric])
  then show ?thesis by simp
qed

lemma binary64_21_2: "binary64 (21 / 2) = 21 / 2"
proof -
  have u: "(1 / 562949953421312 :: rat) = 2 powi (3 - 52)"
    using power_int_neg [of 49] by simp
  have "binary64 (21 / 2) = of_int 5910974510923776 * (1 / 562949953421312)"
    by (rule binary64_eval [where e = 3]) (simp_all add: u [symmetric])
  then show ?thesis by simp
qed

lemma isdigit_digits [simp]:
  "isdigit CHR ''0''" "isdigit CHR ''1''" "isdigit CHR ''2''" "isdigit CHR ''3''"
  "isdigit CHR ''4''" "isdigit CHR ''5''" "isdigit CHR ''6''" "isdigit CHR ''7''"
  "isdigit CHR ''8''" "isdigit CHR ''9''"
  by (simp_all add: isdigit_def)

lemma isdecimal_digits [simp]:
  "isdecimal CHR ''0''" "isdecimal CHR ''1''" "isdecimal CHR ''2''" "isdecimal CHR ''3''"
  "isdecimal CHR ''4''" "isdecimal CHR ''5''" "isdecimal CHR ''6''" "isdecimal CHR ''7''"
  "isdecimal CHR ''8''" "isdecimal CHR ''9''"
  by (simp_all add: isdecimal_def)

lemma parse_PT45M: "parse_duration_to_hours ''PT45M'' = Inr (Some (Finite (3 / 4)))"
proof -
  have scan: "scan_duration ''45M'' 0 0 [] = Inr (0, 45)"
    by (simp add: not_digit_HM py_int_def int_max_str_digits_def digits_value_def digit_value_def)
  have r: "round (100 * (of_int 0 + of_int 45 / 60 :: rat)) = 75"
    by (rule round_unique') simp
  have hv: "hours_value 0 45 = Inr (Finite (3 / 4))"
    by (simp add: hours_value_accurate r binary64_3_4)
  have "parse_duration_to_hours (''PT'' @ ''45M'') = Inr (Some (Finite (3 / 4)))"
    by (simp only: parse_duration_PT scan hv sum.case prod.case)
  then show ?thesis by simp
qed

lemma parse_PT10H30M: "parse_duration_to_hours ''PT10H30M'' = Inr (Some (Finite (21 / 2)))"
proof -
  have d: "digits_value ''10'' = 10" "digits_value ''30'' = 30"
    by (simp_all add: digits_value_def digit_value_def)
  have r: "round (100 * (of_int 10 + of_int 30 / 60 :: rat)) = 1050"
    by (rule round_unique') simp
  have "parse_duration_to_hours (''PT'' @ ''10'' @ ''H'' @ ''30'' @ ''M'')
          = Inr (Some (Finite (binary64 (of_int (round
             (100 * (of_int (digits_value ''10'') + of_int (digits_value ''30'') / 60 :: rat))) / 100))))"
    by (rule parse_duration_token) simp_all
  then show ?thesis by (simp add: d r binary64_21_2)
qed

lemma parse_absent:
  "parse_duration_to_hours '''' = Inr None" "parse_duration_to_hours ''bogus'' = Inr None"
  by (simp_all add: parse_duration_to_hours_def)


subsection \<open>The duration of well-formed tokens\<close>

text \<open>
  C3, as stated, fails: with 17592186044416 hours and 2 minutes the two roundings of the
  float expression give 17592186044416.04 (the double \<open>2251799813685253 / 128\<close>), while
  \<open>h + m/60\<close> rounded to two decimals is 17592186044416.03.
\<close>

theorem parse_duration_precision_counterexample:
  "parse_duration_to_hours ''PT17592186044416H2M''
     \<noteq> Inr (Some (Finite (binary64 (of_int (round
             (100 * (17592186044416 + 2 / 60 :: rat))) / 100))))"
proof -
  have d: "digits_value ''17592186044416'' = 17592186044416" "digits_value ''2'' = 2"
    by (simp_all add: digits_value_def digit_value_def)
  have scan: "scan_duration (''17592186044416'' @ ''H'' @ ''2'' @ ''M'') 0 0 []
                = Inr (digits_value ''17592186044416'', digits_value ''2'')"
    by (rule scan_duration_token) (simp_all add: int_max_str_digits_def)
  have "hours_value 17592186044416 2 =
           Inr (Finite (binary64 (of_int (round_half_even
                  (binary64 (of_int 17592186044416 + binary64 (of_int 2 / 60)) * 100)) / 100)))"
    by (rule hours_value_finite) simp_all
  moreover have "(of_int 2 :: rat) / 60 = 1 / 30"
    and "(of_int 17592186044416 :: rat) = 17592186044416"
    and "(of_int 1759218604441604 :: rat) / 100 = 1759218604441604 / 100"
    by simp_all
  ultimately have hv: "hours_value 17592186044416 2 = Inr (Finite (2251799813685253 / 128))"
    by (simp only: binary64_one_thirtieth binary64_example_sum round_example_sum binary64_example_result)
  have "parse_duration_to_hours (''PT'' @ ''17592186044416'' @ ''H'' @ ''2'' @ ''M'')
          = Inr (Some (Finite (2251799813685253 / 128)))"
    by (simp only: parse_duration_PT scan d hv sum.case prod.case)
  then have l: "parse_duration_to_hours ''PT17592186044416H2M''
                  = Inr (Some (Finite (2251799813685253 / 128)))" by simp
  have "(of_int 1759218604441603 :: rat) / 100 = 1759218604441603 / 100" by simp
  then have "binary64 (of_int (round (100 * (17592186044416 + 2 / 60 :: rat))) / 100)
               = 562949953421313 / 32"
    by (simp only: round_example_exact binary64_example_exact)
  with l show ?thesis by simp
qed

text \<open>
  C3, amended. For digit runs \<open>h\<close> and \<open>m\<close> of at most 13 decimal digits each,
  \<open>parse_duration_to_hours\<close> returns on \<open>PT{h}H{m}M\<close> the double nearest to \<open>h + m/60\<close>
  rounded to two decimals; on \<open>PT10H30M\<close> it returns 10.5, on \<open>PT45M\<close> 0.75, and on the
  empty string and on \<open>bogus\<close> it returns \<open>None\<close>.
\<close>

theorem parse_duration_well_formed:
  "(hs \<noteq> [] \<and> ms \<noteq> [] \<and> list_all isdecimal hs \<and> list_all isdecimal ms \<and>
    length hs \<le> 13 \<and> length ms \<le> 13 \<longrightarrow>
      parse_duration_to_hours (''PT'' @ hs @ ''H'' @ ms @ ''M'') =
        Inr (Some (Finite (binary64 (of_int (round
          (100 * (of_int (digits_value hs) + of_int (digits_value ms) / 60 :: rat))) / 100))))) \<and>
   parse_duration_to_hours ''PT10H30M'' = Inr (Some (Finite (21 / 2))) \<and>
   parse_duration_to_hours ''PT45M'' = Inr (Some (Finite (3 / 4))) \<and>
   parse_duration_to_hours '''' = Inr None \<and>
   parse_duration_to_hours ''bogus'' = Inr None"
  using parse_duration_token [of hs ms] parse_PT10H30M parse_PT45M parse_absent
  by (intro conjI impI) simp_all

lemma binary64_133_100: "binary64 (133 / 100) = 748723438050345 / 562949953421312"
proof -
  have u: "(1 / 4503599627370496 :: rat) = 2 powi (0 - 52)"
    using power_int_neg [of 52] by simp
  have "binary64 (133 / 100) = of_int 5989787504402760 * (1 / 4503599627370496)"
    by (rule binary64_eval [where e = 0]) (simp_all add: u [symmetric])
  then show ?thesis by simp
qed

theorem parse_duration_well_formed_witness:
  "''1'' \<noteq> [] \<and> ''20'' \<noteq> [] \<and> list_all isdecimal ''1'' \<and> list_all isdecimal ''20'' \<and>
   length ''1'' \<le> 13 \<and> length ''20'' \<le> 13 \<and>
   parse_duration_to_hours ''PT1H20M''
     = Inr (Some (Finite (748723438050345 / 562949953421312)))"
proof -
  have d: "digits_value ''1'' = 1" "digits_value ''20'' = 20"
    by (simp_all add: digits_value_def digit_value_def)
  have r: "round (100 * (of_int 1 + of_int 20 / 60 :: rat)) = 133"
    by (rule round_unique') simp
  have h: "''1'' \<noteq> [] \<and> ''20'' \<noteq> [] \<and> list_all isdecimal ''1'' \<and> list_all isdecimal ''20'' \<and>
   length ''1'' \<le> 13 \<and> length ''20'' \<le> 13" by simp
  with parse_duration_well_formed [of "''1''" "''20''"]
  have "parse_duration_to_hours (''PT'' @ ''1'' @ ''H'' @ ''20'' @ ''M'') =
        Inr (Some (Finite (binary64 (of_int (round
          (100 * (of_int (digits_value ''1'') + of_int (digits_value ''20'') / 60 :: rat))) / 100))))"
    by blast
  moreover have "(of_int 133 :: rat) / 100 = 133 / 100" by simp
  moreover have "''PT'' @ ''1'' @ ''H'' @ ''20'' @ ''M'' = ''PT1H20M''" by simp
  ultimately have "parse_duration_to_hours ''PT1H20M''
     = Inr (Some (Finite (748723438050345 / 562949953421312)))"
    by (simp only: d r binary64_133_100)
  with h show ?thesis by blast
qed


subsection \<open>Durations that raise\<close>

lemma int_to_float_overflow:
  assumes "2 ^ 1025 \<le> n"
  shows "int_to_float n = Inl OverflowError"
proof -
  define q :: rat where "q = of_int n"
  have "(of_int (2 ^ 1025) :: rat) \<le> of_int n" using assms by (simp only: of_int_le_iff)
  then have big: "2 powi 1025 \<le> q" by (simp add: q_def)
  have qpos: "0 < q" using big power_int_2_pos [of 1025] by linarith
  define k where "k = floor_log2 q + 1"
  from qpos big have "1025 \<le> floor_log2 q" by (rule floor_log2_ge)
  then have k: "1026 \<le> k" by (simp add: k_def)
  have lo: "2 powi (k - 1) \<le> q" using floor_log2_bounds(1) [OF qpos] by (simp add: k_def)
  have hi: "q < 2 powi k" using floor_log2_bounds(2) [OF qpos] by (simp add: k_def)
  from qpos hi have "\<bar>binary64 q - q\<bar> \<le> 2 powi (k - 54)"
    by (rule binary64_error) (use k in simp)
  then have "q - 2 powi (k - 54) \<le> binary64 q" by linarith
  moreover have "(2::rat) powi (k - 54) \<le> 2 powi (k - 2)" by (rule power_int_2_mono) simp
  moreover have "(2::rat) powi (k - 1) = 2 powi (k - 2) * 2"
    using power_int_add_1 [of "2::rat" "k - 2"] by simp
  ultimately have "2 powi (k - 2) \<le> binary64 q" using lo by linarith
  moreover have "(2::rat) powi 1024 \<le> 2 powi (k - 2)" by (rule power_int_2_mono) (use k in simp)
  ultimately have "float_max_bound \<le> binary64 q" by (simp add: float_max_bound_def)
  then have "\<not> \<bar>binary64 q\<bar> < float_max_bound" by linarith
  then show ?thesis by (simp add: int_to_float_def Let_def q_def)
qed

lemma digits_value_nines: "digits_value (replicate n CHR ''9'') = 10 ^ n - 1"
proof (induction n)
  case 0
  then show ?case by (simp add: digits_value_def)
next
  case (Suc n)
  have "replicate (Suc n) CHR ''9'' = replicate n CHR ''9'' @ [CHR ''9'']"
    by (simp add: replicate_append_same)
  then show ?case by (simp add: digits_value_snoc Suc.IH digit_value_def)
qed

text \<open>A run of 400 nines as the hour count: the conversion to float overflows.\<close>

lemma parse_duration_overflow:
  "parse_duration_to_hours (''PT'' @ replicate 400 CHR ''9'' @ ''H'') = Inl OverflowError"
proof -
  have dec: "list_all isdecimal (replicate 400 CHR ''9'')" by (simp add: list_all_iff)
  have "scan_duration (replicate 400 CHR ''9'' @ ''H'') 0 0 []
          = scan_duration ''H'' 0 0 (replicate 400 CHR ''9'')"
    using dec by (simp add: scan_duration_digits)
  also have "\<dots> = Inr (digits_value (replicate 400 CHR ''9''), 0)"
    using dec by (simp add: not_digit_HM py_int_digits int_max_str_digits_def)
  finally have scan: "scan_duration (replicate 400 CHR ''9'' @ ''H'') 0 0 []
                        = Inr (10 ^ 400 - 1, 0)"
    by (simp only: digits_value_nines)
  have "(2::int) ^ 1025 \<le> 10 ^ 400 - 1" by simp
  then have "int_to_float (10 ^ 400 - 1) = Inl OverflowError" by (rule int_to_float_overflow)
  moreover have "int_to_float 0 = Inr (Finite 0)"
    using int_to_float_exact [of 0] by simp
  ultimately have hv: "hours_value (10 ^ 400 - 1) 0 = Inl OverflowError"
    by (simp add: hours_value_def)
  show ?thesis by (simp only: parse_duration_PT scan hv sum.case prod.case)
qed

lemma parse_duration_absent_iff:
  "parse_duration_to_hours s = Inr None \<longleftrightarrow> s = [] \<or> take 2 s \<noteq> ''PT''"
  by (auto simp: parse_duration_to_hours_def split: sum.splits prod.splits)

text \<open>
  C9. \<open>parse_duration_to_hours\<close> returns \<open>None\<close> exactly on the empty string and on the
  strings that do not begin with \<open>PT\<close> (\<open>parse_duration_absent_iff\<close>). That it returns a
  number on every string that begins with \<open>PT\<close> fails on the code: on \<open>PT\<close>, the
  superscript two (code point 178) and \<open>H\<close>, the character passes \<open>isdigit\<close>, \<open>int()\<close>
  refuses it, and the call raises \<open>ValueError\<close>.
\<close>

theorem parse_duration_superscript_digit:
  "parse_duration_to_hours [CHR ''P'', CHR ''T'', CHR 0xB2, CHR ''H''] = Inl ValueError"
  by (simp add: parse_duration_to_hours_def isdigit_def py_int_def isdecimal_def)

end
